theory Spec2Isabelle
  imports Main "HOL-Library.AList"
begin

section \<open>Data model (converter.go, lines 15-55)\<close>

text \<open>
  The Go structs become records with the source's field names; a field name shared by two
  structs is written qualified (\<open>User.Name\<close>, \<open>Stats.Name\<close>). Go's \<open>int\<close> is
  64 bits wide on the platforms considered. A counter of this program starts at zero and
  is only ever incremented by one, once per message or per reaction occurrence processed,
  so a wrap-around would take \<open>2^63\<close> of them in one bucket; the counters are modelled
  by \<open>int\<close> without wrap-around.
\<close>

record Reaction =
  Name :: string
  Users :: "string list"
  Count :: int

record Message =
  User :: string
  Text :: string
  GivenReactions :: "Reaction list"
  Timestamp :: string

record Profile =
  DisplayName :: string

record User =
  ID :: string
  Name :: string
  Profile :: Profile
  IsRestricted :: bool
  Deleted :: bool

text \<open>
  \<open>GivenReactionUser\<close> and \<open>ReceivedReactionUsers\<close> are \<open>map[string]bool\<close> in the
  source. Only the value \<open>true\<close> is ever stored and only \<open>len\<close> is ever read, so each is
  the set of its keys; the nil map and the empty map are both the empty set.
\<close>

record Stats =
  UserID :: string
  Name :: string
  DisplayName :: string
  Posts :: int
  GivenReactions :: int
  GivenReactionUser :: "string set"
  ReceivedReactions :: int
  ReceivedReactionUsers :: "string set"
  IsRestricted :: bool
  Deleted :: bool

text \<open>
  A Go map that the program iterates over is an association list; \<open>map_of\<close> reads a key and
  \<open>AList.update\<close> stores one (replacing the entry in place, or appending a new one). The
  order of the list stands for the unspecified order in which \<open>range\<close> visits the map.
\<close>

type_synonym StatsByUser = "(string \<times> Stats) list"
type_synonym StatsByDay = "(string \<times> StatsByUser) list"
type_synonym StatsByChannel = "(string \<times> StatsByDay) list"

text \<open>The user lookup table \<open>map[string]*User\<close> is never iterated: a partial function.\<close>

type_synonym UserMap = "string \<rightharpoonup> User"

section \<open>The host: standard library and operating system\<close>

text \<open>
  Everything the program obtains from outside its own source is a field of the host:
  the command line, the file system, the JSON decoder, the path functions, the float
  parser and the clock formatting. Errors are carried as their message text. The type
  \<open>'f\<close> stands for \<open>float64\<close>.

  \<open>Walk root\<close> is the sequence of calls \<open>(path, info.IsDir(), err)\<close> that
  \<open>filepath.Walk\<close> makes to its callback as long as the callback returns nil.
  \<open>WriteErr n\<close> is the error, if any, of the \<open>n\<close>-th call of \<open>writer.Write\<close>.
\<close>

datatype walk_entry = WalkEntry string bool "string option"

record 'f host =
  Args :: "string list"
  ReadFile :: "string \<Rightarrow> string + string"
  UnmarshalUsers :: "string \<Rightarrow> string + User list"
  UnmarshalMessages :: "string \<Rightarrow> string + Message list"
  Walk :: "string \<Rightarrow> walk_entry list"
  Ext :: "string \<Rightarrow> string"
  Dir :: "string \<Rightarrow> string"
  Base :: "string \<Rightarrow> string"
  ParseFloat :: "string \<Rightarrow> string + 'f"
  FormatDay :: "'f \<Rightarrow> string"
  Create :: "string \<Rightarrow> string option"
  WriteErr :: "nat \<Rightarrow> string option"

section \<open>loadUsers and readMessagesFromJSONFile (lines 110-148)\<close>

text \<open>The struct literal of lines 124-129: \<open>Name\<close> is not set and keeps its zero value.\<close>

definition reduceUser :: "User \<Rightarrow> User" where
  "reduceUser user =
     \<lparr>ID = ID user, User.Name = '''', Profile = Profile user,
      User.IsRestricted = User.IsRestricted user, User.Deleted = User.Deleted user\<rparr>"

text \<open>The body of the loop of lines 123-130.\<close>

definition addUser :: "UserMap \<Rightarrow> User \<Rightarrow> UserMap" where
  "addUser userMap user = userMap(ID user \<mapsto> reduceUser user)"

definition loadUsers :: "('f, 'x) host_scheme \<Rightarrow> string \<Rightarrow> string + UserMap" where
  "loadUsers h usersFile =
     (case ReadFile h usersFile of
        Inl err \<Rightarrow> Inl err
      | Inr data \<Rightarrow>
          (case UnmarshalUsers h data of
             Inl err \<Rightarrow> Inl err
           | Inr users \<Rightarrow> Inr (foldl addUser Map.empty users)))"

definition readMessagesFromJSONFile :: "('f, 'x) host_scheme \<Rightarrow> string \<Rightarrow> string + Message list" where
  "readMessagesFromJSONFile h filePath =
     (case ReadFile h filePath of
        Inl err \<Rightarrow> Inl err
      | Inr data \<Rightarrow> UnmarshalMessages h data)"

section \<open>updateStats (lines 150-230)\<close>

text \<open>The struct literal of lines 186-192 and 206-212; the other fields are zero.\<close>

definition newStats :: "User \<Rightarrow> Stats" where
  "newStats u =
     \<lparr>UserID = ID u, Name = User.Name u,
      DisplayName = map (\<lambda>c. if c = CHR '','' then CHR '' '' else c) (Profile.DisplayName (Profile u)),
      Posts = 0, GivenReactions = 0, GivenReactionUser = {},
      ReceivedReactions = 0, ReceivedReactionUsers = {},
      IsRestricted = User.IsRestricted u, Deleted = User.Deleted u\<rparr>"

text \<open>
  Lines 180-194 and 200-214: look the user up in the bucket and, when absent, create the
  record from the lookup table. \<open>None\<close> is the \<open>continue\<close> of lines 184 and 204.
\<close>

definition lookupOrCreate :: "UserMap \<Rightarrow> StatsByUser \<Rightarrow> string \<Rightarrow> StatsByUser option" where
  "lookupOrCreate users statsByUser uid =
     (case map_of statsByUser uid of
        Some s \<Rightarrow> Some statsByUser
      | None \<Rightarrow>
          (case users uid of
             None \<Rightarrow> None
           | Some u \<Rightarrow> Some (AList.update uid (newStats u) statsByUser)))"

text \<open>
  A \<open>*Stats\<close> pointer is created at line 186 or 206 and stored at once under its user's
  key in one bucket, and nowhere else; no entry is ever deleted or overwritten. So the
  pointer \<open>stats\<close> is the entry of \<open>message.User\<close> and \<open>reactingStats\<close> the entry of
  \<open>reactingUser\<close>, and a write through a pointer is a write to that entry. When the two
  keys are equal the two pointers are the same record, and both writes land on it.
\<close>

definition modify :: "string \<Rightarrow> (Stats \<Rightarrow> Stats) \<Rightarrow> StatsByUser \<Rightarrow> StatsByUser" where
  "modify uid f statsByUser =
     (case map_of statsByUser uid of
        None \<Rightarrow> statsByUser
      | Some s \<Rightarrow> AList.update uid (f s) statsByUser)"

text \<open>The body of the inner loop, lines 200-226, for one occurrence of \<open>reactingUser\<close>.\<close>

definition react :: "UserMap \<Rightarrow> string \<Rightarrow> StatsByUser \<Rightarrow> string \<Rightarrow> StatsByUser" where
  "react users author statsByUser reactingUser =
     (case lookupOrCreate users statsByUser reactingUser of
        None \<Rightarrow> statsByUser
      | Some sbu \<Rightarrow>
          modify author
            (\<lambda>s. s\<lparr>Stats.GivenReactions := Stats.GivenReactions s + 1,
                   GivenReactionUser := insert reactingUser (GivenReactionUser s)\<rparr>)
            (modify reactingUser
               (\<lambda>s. s\<lparr>ReceivedReactions := ReceivedReactions s + 1,
                      ReceivedReactionUsers := insert author (ReceivedReactionUsers s)\<rparr>)
               sbu))"

text \<open>The two nested loops of lines 198-228.\<close>

definition reactions :: "UserMap \<Rightarrow> string \<Rightarrow> StatsByUser \<Rightarrow> Reaction list \<Rightarrow> StatsByUser" where
  "reactions users author statsByUser rs =
     foldl (\<lambda>sbu reaction. foldl (react users author) sbu (Users reaction)) statsByUser rs"

text \<open>
  The body of the outer loop, lines 160-228, for one message: \<open>Next\<close> goes on to the next
  message with the day table as it is now, \<open>Stop\<close> is the \<open>return\<close> of line 171 with
  the line it printed.
\<close>

datatype flow = Next StatsByDay | Stop string

definition message_body ::
  "('f, 'x) host_scheme \<Rightarrow> UserMap option \<Rightarrow> StatsByDay \<Rightarrow> Message \<Rightarrow> flow" where
  "message_body h users ud message =
     (case users of
        None \<Rightarrow> Next ud
      | Some us \<Rightarrow>
          if length (Timestamp message) = 0 then Next ud
          else
            (case ParseFloat h (Timestamp message) of
               Inl err \<Rightarrow> Stop (''Error parsing timestamp: '' @ err)
             | Inr floatTs \<Rightarrow>
                 let formattedTime = FormatDay h floatTs;
                     statsByUser = (case map_of ud formattedTime of None \<Rightarrow> [] | Some sbu \<Rightarrow> sbu);
                     ud1 = (case map_of ud formattedTime of
                              None \<Rightarrow> AList.update formattedTime [] ud
                            | Some sbu \<Rightarrow> ud)
                 in (case lookupOrCreate us statsByUser (User message) of
                       None \<Rightarrow> Next ud1
                     | Some sbu \<Rightarrow>
                         Next (AList.update formattedTime
                                 (reactions us (User message)
                                    (modify (User message) (\<lambda>s. s\<lparr>Posts := Posts s + 1\<rparr>) sbu)
                                    (Message.GivenReactions message))
                                 ud1))))"

fun messages_loop ::
  "('f, 'x) host_scheme \<Rightarrow> UserMap option \<Rightarrow> StatsByDay \<Rightarrow> Message list \<Rightarrow> StatsByDay \<times> string list" where
  "messages_loop h users ud [] = (ud, [])"
| "messages_loop h users ud (message # rest) =
     (case message_body h users ud message of
        Next ud' \<Rightarrow> messages_loop h users ud' rest
      | Stop line \<Rightarrow> (ud, [line]))"

text \<open>
  \<open>updateStats\<close> returns the table it leaves behind and the lines it printed. The day
  table \<open>ud\<close> is a reference into \<open>statsByChannel\<close>, so what the loop does to it is
  stored back under \<open>channelName\<close>.
\<close>

definition updateStats ::
  "('f, 'x) host_scheme \<Rightarrow> StatsByChannel \<Rightarrow> string \<Rightarrow> Message list \<Rightarrow> UserMap option
     \<Rightarrow> StatsByChannel \<times> string list" where
  "updateStats h statsByChannel channelName messages users =
     (let ud = (case map_of statsByChannel channelName of None \<Rightarrow> [] | Some ud \<Rightarrow> ud);
          sbc = (case map_of statsByChannel channelName of
                   None \<Rightarrow> AList.update channelName [] statsByChannel
                 | Some ud \<Rightarrow> statsByChannel);
          r = messages_loop h users ud messages
      in (AList.update channelName (fst r) sbc, snd r))"

section \<open>exportCSV (lines 232-288)\<close>

definition header :: "string list" where
  "header =
     [''display_name'', ''name'', ''is_restricted'', ''deleted'', ''day'', ''posts'',
      ''received_reations'', ''received_reaction_users'', ''given_reactions'',
      ''given_reation_users'', ''channel_name'']"

text \<open>\<open>strconv.FormatBool\<close> and \<open>strconv.Itoa\<close>.\<close>

definition FormatBool :: "bool \<Rightarrow> string" where
  "FormatBool b = (if b then ''true'' else ''false'')"

fun digits :: "nat \<Rightarrow> string" where
  "digits n =
     (if n < 10 then [''0123456789'' ! n]
      else digits (n div 10) @ [''0123456789'' ! (n mod 10)])"

definition Itoa :: "int \<Rightarrow> string" where
  "Itoa i = (if i < 0 then ''-'' @ digits (nat (- i)) else digits (nat i))"

text \<open>The slice literal of lines 267-279.\<close>

definition row :: "string \<Rightarrow> string \<Rightarrow> Stats \<Rightarrow> string list" where
  "row channelName day s =
     [DisplayName s, Stats.Name s, FormatBool (IsRestricted s), FormatBool (Deleted s), day,
      Itoa (Posts s), Itoa (Stats.GivenReactions s), Itoa (int (card (GivenReactionUser s))),
      Itoa (ReceivedReactions s), Itoa (int (card (ReceivedReactionUsers s))), channelName]"

text \<open>
  The rows in the order the three nested \<open>range\<close> loops of lines 264-286 build them.
  Building a row has no effect, so the loops are the sequence of the rows followed by the
  sequence of the writes.
\<close>

definition rows :: "StatsByChannel \<Rightarrow> string list list" where
  "rows statsByChannel =
     concat (map (\<lambda>(channelName, ud).
       concat (map (\<lambda>(day, us). map (\<lambda>(uid, s). row channelName day s) us) ud)) statsByChannel)"

text \<open>
  The writes, from the \<open>n\<close>-th call of \<open>writer.Write\<close> on: the first failing call ends
  the function with its error (lines 259-261 and 281-283). The result carries the records
  the writer has accepted.
\<close>

fun write_all ::
  "(nat \<Rightarrow> string option) \<Rightarrow> nat \<Rightarrow> string list list \<Rightarrow> string list list
     \<Rightarrow> string option \<times> string list list" where
  "write_all werr n written [] = (None, written)"
| "write_all werr n written (r # rs) =
     (case werr n of
        Some err \<Rightarrow> (Some err, written)
      | None \<Rightarrow> write_all werr (Suc n) (written @ [r]) rs)"

text \<open>
  \<open>exportCSV\<close> returns its error (\<open>None\<close> is nil) and the file it leaves behind:
  \<open>None\<close> when \<open>os.Create\<close> failed, otherwise the records accepted by the writer.
\<close>

definition exportCSV ::
  "('f, 'x) host_scheme \<Rightarrow> string \<Rightarrow> StatsByChannel \<Rightarrow> string option \<times> string list list option" where
  "exportCSV h fileName statsByChannel =
     (case Create h fileName of
        Some err \<Rightarrow> (Some err, None)
      | None \<Rightarrow>
          (let r = write_all (WriteErr h) 0 [] (header # rows statsByChannel)
           in (fst r, Some (snd r))))"

section \<open>main (lines 57-108)\<close>

text \<open>What the run has built and printed so far.\<close>

record state =
  Table :: StatsByChannel
  Out :: "string list"

text \<open>The callback given to \<open>filepath.Walk\<close>, lines 76-98; \<open>Inl\<close> is a non-nil error.\<close>

definition walkFn ::
  "('f, 'x) host_scheme \<Rightarrow> string \<Rightarrow> UserMap option \<Rightarrow> state \<Rightarrow> walk_entry \<Rightarrow> string + state" where
  "walkFn h basePath users st e =
     (case e of WalkEntry path isDir err \<Rightarrow>
        (case err of
           Some er \<Rightarrow> Inl er
         | None \<Rightarrow>
             if \<not> isDir \<and> Ext h path = ''.json'' then
               (let dir = Dir h path
                in if Base h dir = Base h basePath then Inr st
                   else
                     (case readMessagesFromJSONFile h path of
                        Inl er \<Rightarrow> Inl er
                      | Inr messages \<Rightarrow>
                          (let r = updateStats h (Table st) (Base h dir) messages users
                           in Inr \<lparr>Table = fst r, Out = Out st @ snd r\<rparr>)))
             else Inr st))"

text \<open>
  \<open>filepath.Walk\<close> stops at the first call of the callback that returns an error and
  returns that error; \<open>Inl\<close> carries it together with the state reached by then.
\<close>

fun walk_loop ::
  "('f, 'x) host_scheme \<Rightarrow> string \<Rightarrow> UserMap option \<Rightarrow> state \<Rightarrow> walk_entry list
     \<Rightarrow> (string \<times> state) + state" where
  "walk_loop h basePath users st [] = Inr st"
| "walk_loop h basePath users st (e # es) =
     (case walkFn h basePath users st e of
        Inl er \<Rightarrow> Inl (er, st)
      | Inr st' \<Rightarrow> walk_loop h basePath users st' es)"

text \<open>Line 105: both \<open>strings.Replace\<close> calls delete every occurrence.\<close>

definition outputName :: "string \<Rightarrow> string" where
  "outputName basePath =
     ''./'' @ filter (\<lambda>c. c \<noteq> CHR ''/'') (filter (\<lambda>c. c \<noteq> CHR ''.'') basePath) @ ''.csv''"

text \<open>
  A run of the program: the lines printed on standard output and the CSV file left behind
  (its name and records), if one was created. \<open>fmt.Println\<close> puts a space between its
  operands. With an empty \<open>os.Args\<close> line 66 panics: \<open>Inl\<close>.
\<close>

record outcome =
  Printed :: "string list"
  Csv :: "(string \<times> string list list) option"

definition main :: "('f, 'x) host_scheme \<Rightarrow> string + outcome" where
  "main h =
     (if length (Args h) = 1 then
        Inr \<lparr>Printed = [''Error: No directory path specified.''], Csv = None\<rparr>
      else if length (Args h) > 2 then
        Inr \<lparr>Printed = [''Error: Too many arguments. The correct usage is `go run converter.go PATH`.''],
             Csv = None\<rparr>
      else if length (Args h) \<le> 1 then Inl ''index out of range''
      else
        (let basePath = Args h ! 1
         in (case loadUsers h (basePath @ ''/users.json'') of
               Inl err \<Rightarrow> Inr \<lparr>Printed = [''Error loading users: '' @ err], Csv = None\<rparr>
             | Inr users \<Rightarrow>
                 (case walk_loop h basePath (Some users) \<lparr>Table = [], Out = []\<rparr> (Walk h basePath) of
                    Inl (err, st) \<Rightarrow>
                      Inr \<lparr>Printed = Out st @ [''Error processing files: '' @ err], Csv = None\<rparr>
                  | Inr st \<Rightarrow>
                      (let r = exportCSV h (outputName basePath) (Table st)
                       in Inr \<lparr>Printed = Out st @ [outputName basePath @ ''  file created successfully.''],
                               Csv = map_option (\<lambda>recs. (outputName basePath, recs)) (snd r)\<rparr>)))))"

section \<open>Notions used to state the properties\<close>

text \<open>
  The Stats record of a (channel, day, user) triple, if the table has one; \<open>day_stats\<close>
  is the same inside one channel's day table.
\<close>

definition day_stats :: "StatsByDay \<Rightarrow> string \<Rightarrow> string \<Rightarrow> Stats option" where
  "day_stats ud day uid = (case map_of ud day of None \<Rightarrow> None | Some statsByUser \<Rightarrow> map_of statsByUser uid)"

definition stats_at :: "StatsByChannel \<Rightarrow> string \<Rightarrow> string \<Rightarrow> string \<Rightarrow> Stats option" where
  "stats_at statsByChannel channelName day uid =
     (case map_of statsByChannel channelName of None \<Rightarrow> None | Some ud \<Rightarrow> day_stats ud day uid)"

text \<open>The post count of user \<open>U\<close> summed over the buckets of a day table and of the whole table.\<close>

definition posts_in :: "string \<Rightarrow> StatsByUser \<Rightarrow> int" where
  "posts_in U statsByUser = (case map_of statsByUser U of None \<Rightarrow> 0 | Some s \<Rightarrow> Posts s)"

definition posts_of_day :: "string \<Rightarrow> StatsByDay \<Rightarrow> int" where
  "posts_of_day U ud = sum_list (map (\<lambda>(day, statsByUser). posts_in U statsByUser) ud)"

definition posts_of_user :: "string \<Rightarrow> StatsByChannel \<Rightarrow> int" where
  "posts_of_user U statsByChannel = sum_list (map (\<lambda>(channelName, ud). posts_of_day U ud) statsByChannel)"

text \<open>Every record of the table belongs to a user of the lookup table.\<close>

definition known_bucket :: "UserMap \<Rightarrow> StatsByUser \<Rightarrow> bool" where
  "known_bucket users statsByUser = (fst ` set statsByUser \<subseteq> dom users)"

definition known_days :: "UserMap \<Rightarrow> StatsByDay \<Rightarrow> bool" where
  "known_days users ud = list_all (\<lambda>(day, statsByUser). known_bucket users statsByUser) ud"

definition known_table :: "UserMap \<Rightarrow> StatsByChannel \<Rightarrow> bool" where
  "known_table users statsByChannel = list_all (\<lambda>(channelName, ud). known_days users ud) statsByChannel"





text \<open>Every record of the table has the empty name.\<close>

definition unnamed_bucket :: "StatsByUser \<Rightarrow> bool" where
  "unnamed_bucket statsByUser = list_all (\<lambda>(uid, s). Stats.Name s = []) statsByUser"

definition unnamed_days :: "StatsByDay \<Rightarrow> bool" where
  "unnamed_days ud = list_all (\<lambda>(day, statsByUser). unnamed_bucket statsByUser) ud"

definition unnamed_table :: "StatsByChannel \<Rightarrow> bool" where
  "unnamed_table statsByChannel = list_all (\<lambda>(channelName, ud). unnamed_days ud) statsByChannel"


text \<open>
  A message whose timestamp is non-empty and parses, and one whose timestamp is non-empty
  and does not.
\<close>

definition parseable :: "('f, 'x) host_scheme \<Rightarrow> Message \<Rightarrow> bool" where
  "parseable h m = (Timestamp m \<noteq> [] \<and> \<not> isl (ParseFloat h (Timestamp m)))"

definition unparseable :: "('f, 'x) host_scheme \<Rightarrow> Message \<Rightarrow> bool" where
  "unparseable h m = (Timestamp m \<noteq> [] \<and> isl (ParseFloat h (Timestamp m)))"


text \<open>
  The identifiers of a list that are in the lookup table, and the message without the
  reactor occurrences that are absent from it.
\<close>

definition present :: "UserMap \<Rightarrow> string list \<Rightarrow> string list" where
  "present users uids = filter (\<lambda>uid. users uid \<noteq> None) uids"

definition known_reactions :: "UserMap \<Rightarrow> Message \<Rightarrow> Message" where
  "known_reactions users m =
     m\<lparr>Message.GivenReactions :=
         map (\<lambda>reaction. reaction\<lparr>Users := present users (Users reaction)\<rparr>)
           (Message.GivenReactions m)\<rparr>"

text \<open>
  The number of messages of a list written by \<open>U\<close> with a non-empty, parseable timestamp;
  the messages of a file that come before its first message with an unparseable timestamp.
\<close>

definition authored :: "('f, 'x) host_scheme \<Rightarrow> string \<Rightarrow> Message list \<Rightarrow> int" where
  "authored h U messages = int (length (filter (\<lambda>m. User m = U \<and> parseable h m) messages))"

definition reached :: "('f, 'x) host_scheme \<Rightarrow> Message list \<Rightarrow> Message list" where
  "reached h messages = takeWhile (\<lambda>m. \<not> unparseable h m) messages"

text \<open>
  The messages of the input that one walk entry stands for: the decoded content of a regular
  \<open>.json\<close> file whose directory does not have the base name of the root, nothing for
  any other entry.
\<close>

definition entry_messages :: "('f, 'x) host_scheme \<Rightarrow> string \<Rightarrow> walk_entry \<Rightarrow> Message list" where
  "entry_messages h basePath e =
     (case e of WalkEntry path isDir err \<Rightarrow>
        if err = None \<and> \<not> isDir \<and> Ext h path = ''.json'' \<and> Base h (Dir h path) \<noteq> Base h basePath
        then (case readMessagesFromJSONFile h path of Inl er \<Rightarrow> [] | Inr messages \<Rightarrow> messages)
        else [])"

definition input_posts :: "('f, 'x) host_scheme \<Rightarrow> string \<Rightarrow> string \<Rightarrow> walk_entry list \<Rightarrow> int" where
  "input_posts h basePath U entries =
     sum_list (map (\<lambda>e. authored h U (entry_messages h basePath e)) entries)"

definition reached_posts :: "('f, 'x) host_scheme \<Rightarrow> string \<Rightarrow> string \<Rightarrow> walk_entry list \<Rightarrow> int" where
  "reached_posts h basePath U entries =
     sum_list (map (\<lambda>e. authored h U (reached h (entry_messages h basePath e))) entries)"

text \<open>A walk entry that raises no error: no walk error, and a channel file reads and decodes.\<close>

definition entry_ok :: "('f, 'x) host_scheme \<Rightarrow> string \<Rightarrow> walk_entry \<Rightarrow> bool" where
  "entry_ok h basePath e =
     (case e of WalkEntry path isDir err \<Rightarrow>
        err = None \<and>
        (if \<not> isDir \<and> Ext h path = ''.json'' \<and> Base h (Dir h path) \<noteq> Base h basePath
         then \<not> isl (readMessagesFromJSONFile h path) else True))"

text \<open>The line printed at line 107.\<close>

definition success_line :: "string \<Rightarrow> string" where
  "success_line basePath = outputName basePath @ ''  file created successfully.''"





section \<open>A sample export\<close>

text \<open>
  What \<open>filepath.Base\<close>, \<open>filepath.Dir\<close> and \<open>filepath.Ext\<close> return on a clean,
  slash-separated relative path; they serve the sample host only.
\<close>

definition cleanBase :: "string \<Rightarrow> string" where
  "cleanBase p = rev (takeWhile (\<lambda>c. c \<noteq> CHR ''/'') (rev p))"

definition cleanDir :: "string \<Rightarrow> string" where
  "cleanDir p =
     (let d = rev (drop 1 (dropWhile (\<lambda>c. c \<noteq> CHR ''/'') (rev p)))
      in if d = [] then ''.'' else d)"

definition cleanExt :: "string \<Rightarrow> string" where
  "cleanExt p =
     (let b = cleanBase p
      in if CHR ''.'' \<in> set b then CHR ''.'' # rev (takeWhile (\<lambda>c. c \<noteq> CHR ''.'') (rev b))
         else [])"

definition alice :: User where
  "alice = \<lparr>ID = ''U1'', User.Name = ''alice'', Profile = \<lparr>Profile.DisplayName = ''Alice''\<rparr>,
            User.IsRestricted = False, User.Deleted = False\<rparr>"

definition bob :: User where
  "bob = \<lparr>ID = ''U2'', User.Name = ''bob'', Profile = \<lparr>Profile.DisplayName = ''Bob, Jr.''\<rparr>,
          User.IsRestricted = True, User.Deleted = False\<rparr>"

definition hi :: Message where
  "hi = \<lparr>User = ''U1'', Text = ''hi'',
         Message.GivenReactions =
           [\<lparr>Reaction.Name = ''thumbsup'', Users = [''U1'', ''U2'', ''U9''], Count = 3\<rparr>],
         Timestamp = ''1700000000''\<rparr>"

definition broken :: Message where
  "broken = \<lparr>User = ''U2'', Text = ''??'', Message.GivenReactions = [],
             Timestamp = ''not-a-number''\<rparr>"

definition late :: Message where
  "late = \<lparr>User = ''U2'', Text = ''late'', Message.GivenReactions = [],
           Timestamp = ''1700000000''\<rparr>"

definition news :: Message where
  "news = \<lparr>User = ''U2'', Text = ''news'', Message.GivenReactions = [],
           Timestamp = ''1700000000''\<rparr>"

definition ghost :: Message where
  "ghost = \<lparr>User = ''U9'', Text = ''boo'', Message.GivenReactions = [],
            Timestamp = ''1700086400''\<rparr>"

definition blank :: Message where
  "blank = \<lparr>User = ''U1'', Text = ''draft'', Message.GivenReactions = [], Timestamp = ''''\<rparr>"


text \<open>
  The directory \<open>export\<close> holds \<open>users.json\<close> (Alice and Bob) and the channels
  \<open>general\<close> (\<open>hi\<close>, \<open>broken\<close>, \<open>late\<close>) and \<open>random\<close> (\<open>news\<close>, \<open>ghost\<close>,
  \<open>blank\<close>). A file's content is written as a tag that the decoder maps to the decoded
  value; a timestamp is parsed to its whole seconds.
\<close>

definition demo :: "nat host" where
  "demo =
     \<lparr>Args = [''converter'', ''export''],
      ReadFile = (\<lambda>p. if p = ''export/users.json'' then Inr ''<users>''
                       else if p = ''export/general/log.json'' then Inr ''<general>''
                       else if p = ''export/random/log.json'' then Inr ''<random>''
                       else Inl ''no such file''),
      UnmarshalUsers = (\<lambda>d. if d = ''<users>'' then Inr [alice, bob] else Inl ''bad users''),
      UnmarshalMessages = (\<lambda>d. if d = ''<general>'' then Inr [hi, broken, late]
                                else if d = ''<random>'' then Inr [news, ghost, blank]
                                else Inl ''bad messages''),
      Walk = (\<lambda>root. [WalkEntry ''export'' True None,
                       WalkEntry ''export/general'' True None,
                       WalkEntry ''export/general/log.json'' False None,
                       WalkEntry ''export/random'' True None,
                       WalkEntry ''export/random/log.json'' False None,
                       WalkEntry ''export/users.json'' False None]),
      Ext = cleanExt, Dir = cleanDir, Base = cleanBase,
      ParseFloat = (\<lambda>s. if s = ''1700000000'' then Inr 1700000000
                         else if s = ''1700086400'' then Inr 1700086400
                         else Inl ''invalid syntax''),
      FormatDay = (\<lambda>f. if f = 1700000000 then ''2023-11-14''
                        else if f = 1700086400 then ''2023-11-15'' else ''1970-01-01''),
      Create = (\<lambda>p. None),
      WriteErr = (\<lambda>n. None)\<rparr>"

text \<open>
  The same export on a host where \<open>os.Create\<close> fails, and on one where the third
  call of \<open>writer.Write\<close> fails.
\<close>

definition demo_readonly :: "nat host" where
  "demo_readonly = demo\<lparr>Create := (\<lambda>p. Some ''permission denied'')\<rparr>"

definition demo_full :: "nat host" where
  "demo_full = demo\<lparr>WriteErr := (\<lambda>n. if n = 2 then Some ''no space left on device'' else None)\<rparr>"

text \<open>The lookup table \<open>loadUsers\<close> builds for the sample, and the table the walk ends with.\<close>

definition demo_users :: UserMap where
  "demo_users = [''U1'' \<mapsto> reduceUser alice, ''U2'' \<mapsto> reduceUser bob]"

definition demo_table :: StatsByChannel where
  "demo_table =
     [(''general'',
        [(''2023-11-14'',
           [(''U1'', \<lparr>UserID = ''U1'', Name = '''', DisplayName = ''Alice'', Posts = 1,
                      GivenReactions = 2, GivenReactionUser = {''U1'', ''U2''},
                      ReceivedReactions = 1, ReceivedReactionUsers = {''U1''},
                      IsRestricted = False, Deleted = False\<rparr>),
            (''U2'', \<lparr>UserID = ''U2'', Name = '''', DisplayName = ''Bob  Jr.'', Posts = 0,
                      GivenReactions = 0, GivenReactionUser = {},
                      ReceivedReactions = 1, ReceivedReactionUsers = {''U1''},
                      IsRestricted = True, Deleted = False\<rparr>)])]),
      (''random'',
        [(''2023-11-14'',
           [(''U2'', \<lparr>UserID = ''U2'', Name = '''', DisplayName = ''Bob  Jr.'', Posts = 1,
                      GivenReactions = 0, GivenReactionUser = {},
                      ReceivedReactions = 0, ReceivedReactionUsers = {},
                      IsRestricted = True, Deleted = False\<rparr>)]),
         (''2023-11-15'', [])])]"

definition demo_csv :: "string list list" where
  "demo_csv =
     [header,
      [''Alice'', '''', ''false'', ''false'', ''2023-11-14'', ''1'', ''2'', ''2'', ''1'', ''1'', ''general''],
      [''Bob  Jr.'', '''', ''true'', ''false'', ''2023-11-14'', ''0'', ''0'', ''0'', ''1'', ''1'', ''general''],
      [''Bob  Jr.'', '''', ''true'', ''false'', ''2023-11-14'', ''1'', ''0'', ''0'', ''0'', ''0'', ''random'']]"

section \<open>Go's path functions and a root path that ends in a dot\<close>

text \<open>
  The functions of Go's \<open>path/filepath\<close> on a Unix host, after their documentation.
  \<open>Clean\<close> splits the path at its slashes, drops the empty and the \<open>.\<close> elements,
  lets a \<open>..\<close> element take away the element before it (at the start of a rooted path
  it is dropped, at the start of a relative one it stays), joins what is left and returns
  \<open>.\<close> for an empty result.
\<close>

fun split_slash :: "string \<Rightarrow> string list" where
  "split_slash [] = [] # []"
| "split_slash (c # cs) =
     (if c = CHR ''/'' then [] # split_slash cs
      else (case split_slash cs of [] \<Rightarrow> [c] # [] | e # es \<Rightarrow> (c # e) # es))"

fun join_slash :: "string list \<Rightarrow> string" where
  "join_slash [] = []"
| "join_slash [e] = e"
| "join_slash (e # es) = e @ ''/'' @ join_slash es"

definition clean_step :: "bool \<Rightarrow> string list \<Rightarrow> string \<Rightarrow> string list" where
  "clean_step rooted out e =
     (if e = [] \<or> e = ''.'' then out
      else if e = ''..'' then
        (if out \<noteq> [] \<and> last out \<noteq> ''..'' then butlast out
         else if rooted then out
         else out @ [e])
      else out @ [e])"

definition filepath_Clean :: "string \<Rightarrow> string" where
  "filepath_Clean path =
     (let rooted = (take 1 path = ''/'');
          out = (if rooted then ''/'' else []) @
                join_slash (foldl (clean_step rooted) [] (split_slash path))
      in if out = [] then ''.'' else out)"

text \<open>
  \<open>Base\<close> strips the trailing slashes and returns the last element (\<open>.\<close> for the empty
  path, \<open>/\<close> for a path of slashes only); \<open>Dir\<close> is \<open>Clean\<close> of the path up to
  its last slash; \<open>Ext\<close> is the suffix of the last element from its last dot on;
  \<open>Join\<close> is \<open>Clean\<close> of its non-empty arguments put together with a slash.
\<close>

definition filepath_Base :: "string \<Rightarrow> string" where
  "filepath_Base path =
     (if path = [] then ''.''
      else
        (let stripped = rev (dropWhile (\<lambda>c. c = CHR ''/'') (rev path));
             elem = rev (takeWhile (\<lambda>c. c \<noteq> CHR ''/'') (rev stripped))
         in if elem = [] then ''/'' else elem))"

definition filepath_Dir :: "string \<Rightarrow> string" where
  "filepath_Dir path = filepath_Clean (rev (dropWhile (\<lambda>c. c \<noteq> CHR ''/'') (rev path)))"

definition filepath_Ext :: "string \<Rightarrow> string" where
  "filepath_Ext path =
     (let elem = rev (takeWhile (\<lambda>c. c \<noteq> CHR ''/'') (rev path))
      in if CHR ''.'' \<in> set elem then CHR ''.'' # rev (takeWhile (\<lambda>c. c \<noteq> CHR ''.'') (rev elem))
         else [])"

definition filepath_Join :: "string \<Rightarrow> string \<Rightarrow> string" where
  "filepath_Join dir name =
     (if dir \<noteq> [] then filepath_Clean (dir @ ''/'' @ name)
      else if name \<noteq> [] then filepath_Clean name
      else [])"

text \<open>
  A directory tree without unreadable entries, the names of a folder in lexical order.
  \<open>filepath.Walk\<close> calls its callback on the root path as it was given, and inside a
  folder on \<open>Join\<close> of the folder's path and each name, descending into a folder right
  after the call on it.
\<close>

datatype node = File | Folder "(string \<times> node) list"

fun filepath_walk :: "string \<Rightarrow> node \<Rightarrow> walk_entry list"
  and walk_names :: "string \<Rightarrow> (string \<times> node) list \<Rightarrow> walk_entry list" where
  "filepath_walk path File = [WalkEntry path False None]"
| "filepath_walk path (Folder entries) = WalkEntry path True None # walk_names path entries"
| "walk_names path [] = []"
| "walk_names path ((name, child) # rest) =
     filepath_walk (filepath_Join path name) child @ walk_names path rest"

text \<open>
  The directory \<open>export\<close> holds nothing but \<open>users.json\<close> (Alice and Bob), and the
  program is given the root path \<open>export/.\<close>, which names that directory: the file
  system reads a path by its clean form. Decoded as messages, the two user objects give
  two messages with every field zero, as no key of a user is a key of a message.
  \<open>plain_root\<close> is the same host with the root path \<open>export\<close>.
\<close>

definition zero_message :: Message where
  "zero_message = \<lparr>User = '''', Text = '''', Message.GivenReactions = [], Timestamp = ''''\<rparr>"

definition dotted_root :: "nat host" where
  "dotted_root =
     \<lparr>Args = [''converter'', ''export/.''],
      ReadFile = (\<lambda>p. if filepath_Clean p = ''export/users.json'' then Inr ''<users>''
                       else Inl ''no such file''),
      UnmarshalUsers = (\<lambda>d. if d = ''<users>'' then Inr [alice, bob] else Inl ''bad users''),
      UnmarshalMessages = (\<lambda>d. if d = ''<users>'' then Inr [zero_message, zero_message]
                                else Inl ''bad messages''),
      Walk = (\<lambda>root. if filepath_Clean root = ''export''
                       then filepath_walk root (Folder [(''users.json'', File)])
                       else [WalkEntry root False (Some ''no such file or directory'')]),
      Ext = filepath_Ext, Dir = filepath_Dir, Base = filepath_Base,
      ParseFloat = (\<lambda>s. Inl ''invalid syntax''),
      FormatDay = (\<lambda>f. ''1970-01-01''),
      Create = (\<lambda>p. None),
      WriteErr = (\<lambda>n. None)\<rparr>"

definition plain_root :: "nat host" where
  "plain_root = dotted_root\<lparr>Args := [''converter'', ''export'']\<rparr>"

section \<open>Association lists, known users and the post count\<close>

declare digits.simps [simp del]

lemmas demo_defs =
  demo_def alice_def bob_def hi_def broken_def late_def news_def ghost_def blank_def
  cleanBase_def cleanDir_def cleanExt_def

lemmas code_defs =
  loadUsers_def readMessagesFromJSONFile_def walkFn_def updateStats_def message_body_def
  lookupOrCreate_def modify_def react_def reactions_def newStats_def reduceUser_def Let_def

lemma sum_update:
  "sum_list (map (\<lambda>(k, v). f v) (AList.update k v al)) =
     sum_list (map (\<lambda>(k, v). f v) al) - (case map_of al k of None \<Rightarrow> 0 | Some old \<Rightarrow> f old) + (f v :: int)"
  by (induction al) auto

lemma map_of_modify:
  "map_of (modify k f m) k' = (if k' = k then map_option f (map_of m k) else map_of m k')"
  by (cases "map_of m k") (simp_all add: modify_def update_conv')

lemma map_of_Some_key: "map_of m k = Some v \<Longrightarrow> k \<in> fst ` set m"
  by (force dest: map_of_SomeD)

lemma keys_modify: "fst ` set (modify k f m) = fst ` set m"
proof (cases "map_of m k")
  case None
  then show ?thesis by (simp add: modify_def)
next
  case (Some s)
  then have "k \<in> fst ` set m" by (rule map_of_Some_key)
  with Some show ?thesis by (simp add: modify_def dom_update insert_absorb)
qed

lemma lookupOrCreate_map_of:
  "lookupOrCreate us m k = Some m' \<Longrightarrow>
   map_of m' k' = (if k' = k then Some (case map_of m k of Some s \<Rightarrow> s | None \<Rightarrow> newStats (the (us k))) else map_of m k')"
  by (auto simp: lookupOrCreate_def update_conv' split: option.splits)

lemma lookupOrCreate_keys:
  assumes "lookupOrCreate us m k = Some m'"
  shows "fst ` set m' = insert k (fst ` set m)"
proof (cases "map_of m k")
  case (Some s)
  then have "k \<in> fst ` set m" by (rule map_of_Some_key)
  moreover from Some assms have "m' = m" by (simp add: lookupOrCreate_def)
  ultimately show ?thesis by (simp add: insert_absorb)
next
  case None
  with assms obtain u where "us k = Some u" "m' = AList.update k (newStats u) m"
    by (auto simp: lookupOrCreate_def split: option.splits)
  then show ?thesis by (simp add: dom_update)
qed

lemma lookupOrCreate_None:
  "lookupOrCreate us m k = None \<longleftrightarrow> map_of m k = None \<and> us k = None"
  by (auto simp: lookupOrCreate_def split: option.splits)

lemma lookupOrCreate_known:
  assumes "lookupOrCreate us m k = Some m'" "known_bucket us m"
  shows "known_bucket us m' \<and> k \<in> dom us"
proof -
  have "k \<in> dom us"
  proof (cases "map_of m k")
    case (Some s)
    then have "k \<in> fst ` set m" by (rule map_of_Some_key)
    with assms(2) show ?thesis by (auto simp: known_bucket_def)
  next
    case None
    with assms(1) show ?thesis by (auto simp: lookupOrCreate_def split: option.splits)
  qed
  with assms show ?thesis by (simp add: known_bucket_def lookupOrCreate_keys)
qed

lemma posts_in_lookupOrCreate:
  "lookupOrCreate us m k = Some m' \<Longrightarrow> posts_in U m' = posts_in U m"
  by (auto simp: posts_in_def lookupOrCreate_map_of newStats_def split: option.splits)

lemma posts_in_react: "posts_in U (react us a m r) = posts_in U m"
  by (auto simp: react_def posts_in_def map_of_modify lookupOrCreate_map_of newStats_def split: option.splits)

lemma known_react: "known_bucket us m \<Longrightarrow> known_bucket us (react us a m r)"
proof (cases "lookupOrCreate us m r")
  case None
  assume "known_bucket us m"
  with None show ?thesis by (simp add: react_def)
next
  case (Some m')
  assume "known_bucket us m"
  with Some have "known_bucket us m'" by (simp add: lookupOrCreate_known)
  with Some show ?thesis by (simp add: react_def known_bucket_def keys_modify)
qed

lemma posts_in_reactions: "posts_in U (reactions us a m rs) = posts_in U m"
proof -
  have inner: "posts_in U (foldl (react us a) m xs) = posts_in U m" for m xs
    by (induction xs arbitrary: m) (simp_all add: posts_in_react)
  show ?thesis unfolding reactions_def
    by (induction rs arbitrary: m) (simp_all add: inner)
qed

lemma reactions_keep_known: "known_bucket us m \<Longrightarrow> known_bucket us (reactions us a m rs)"
proof -
  have inner: "known_bucket us m \<Longrightarrow> known_bucket us (foldl (react us a) m xs)" for m xs
    by (induction xs arbitrary: m) (simp_all add: known_react)
  show "known_bucket us m \<Longrightarrow> known_bucket us (reactions us a m rs)" unfolding reactions_def
    by (induction rs arbitrary: m) (simp_all add: inner)
qed

lemma list_all_update:
  "list_all P al \<Longrightarrow> P (k, v) \<Longrightarrow> list_all P (AList.update k v al)"
  by (induction al) auto

lemma list_all_map_of:
  "list_all P al \<Longrightarrow> map_of al k = Some v \<Longrightarrow> P (k, v)"
  by (auto simp: list_all_iff dest: map_of_SomeD)

lemma posts_in_Nil: "posts_in U [] = 0"
  by (simp add: posts_in_def)

lemma known_bucket_Nil: "known_bucket us []"
  by (simp add: known_bucket_def)

lemma posts_in_bump:
  "map_of m a = Some s \<Longrightarrow>
   posts_in U (modify a (\<lambda>s. s\<lparr>Posts := Posts s + 1\<rparr>) m) = posts_in U m + (if U = a then 1 else 0)"
  by (simp add: posts_in_def map_of_modify)

lemma bucket_posts:
  assumes "lookupOrCreate us sbu0 a = Some sbu"
  shows "posts_in U (reactions us a (modify a (\<lambda>s. s\<lparr>Posts := Posts s + 1\<rparr>) sbu) rs) =
         posts_in U sbu0 + (if U = a then 1 else 0)"
proof -
  from assms obtain s where "map_of sbu a = Some s"
    by (simp add: lookupOrCreate_map_of)
  then show ?thesis
    using assms by (simp add: posts_in_reactions posts_in_bump posts_in_lookupOrCreate)
qed

lemma bucket_known:
  assumes "lookupOrCreate us sbu0 a = Some sbu" "known_bucket us sbu0"
  shows "known_bucket us (reactions us a (modify a f sbu) rs)"
proof -
  from assms have "known_bucket us sbu" by (simp add: lookupOrCreate_known)
  then have "known_bucket us (modify a f sbu)" by (simp add: known_bucket_def keys_modify)
  then show ?thesis by (rule reactions_keep_known)
qed

lemma posts_of_day_update:
  "posts_of_day U (AList.update d sbu ud) =
     posts_of_day U ud - (case map_of ud d of None \<Rightarrow> 0 | Some old \<Rightarrow> posts_in U old) + posts_in U sbu"
  unfolding posts_of_day_def by (rule sum_update)

lemma message_body_Stop:
  "message_body h (Some us) ud m = Stop line \<longleftrightarrow>
     unparseable h m \<and> line = ''Error parsing timestamp: '' @ projl (ParseFloat h (Timestamp m))"
  by (auto simp: message_body_def unparseable_def Let_def split: sum.splits option.splits)

lemma message_body_posts:
  assumes body: "message_body h (Some us) ud m = Next ud'" and known: "known_days us ud"
  shows "posts_of_day U ud' =
           posts_of_day U ud + (if User m = U \<and> parseable h m \<and> U \<in> dom us then 1 else 0)
         \<and> known_days us ud'"
proof (cases "Timestamp m = []")
  case True
  with body known show ?thesis by (simp add: message_body_def parseable_def)
next
  case ts: False
  show ?thesis
  proof (cases "ParseFloat h (Timestamp m)")
    case (Inl err)
    with ts body show ?thesis by (simp add: message_body_def)
  next
    case (Inr floatTs)
    define d where "d = FormatDay h floatTs"
    define sbu0 where "sbu0 = (case map_of ud d of None \<Rightarrow> [] | Some sbu \<Rightarrow> sbu)"
    define ud1 where "ud1 = (case map_of ud d of None \<Rightarrow> AList.update d [] ud | Some sbu \<Rightarrow> ud)"
    have p: "parseable h m" using ts Inr by (simp add: parseable_def)
    have body_eq: "message_body h (Some us) ud m =
        (case lookupOrCreate us sbu0 (User m) of
           None \<Rightarrow> Next ud1
         | Some sbu \<Rightarrow>
             Next (AList.update d
                     (reactions us (User m) (modify (User m) (\<lambda>s. s\<lparr>Posts := Posts s + 1\<rparr>) sbu)
                        (Message.GivenReactions m))
                     ud1))"
      unfolding message_body_def d_def sbu0_def ud1_def using ts Inr by (simp add: Let_def)
    have at: "map_of ud1 d = Some sbu0"
      by (simp add: ud1_def sbu0_def update_conv' split: option.splits)
    have sum1: "posts_of_day U ud1 = posts_of_day U ud"
      by (simp add: ud1_def posts_of_day_update posts_in_Nil split: option.splits)
    have k0: "known_bucket us sbu0"
      using known by (auto simp: sbu0_def known_bucket_Nil known_days_def split: option.splits
          dest: list_all_map_of)
    have k1: "known_days us ud1"
      using known by (simp add: ud1_def known_days_def list_all_update known_bucket_Nil split: option.splits)
    show ?thesis
    proof (cases "lookupOrCreate us sbu0 (User m)")
      case None
      then have "User m \<notin> dom us" by (auto simp: lookupOrCreate_None)
      moreover from None body have "ud' = ud1"
        by (simp add: body_eq)
      ultimately show ?thesis using sum1 k1 by auto
    next
      case (Some sbu)
      define sbu3 where
        "sbu3 = reactions us (User m) (modify (User m) (\<lambda>s. s\<lparr>Posts := Posts s + 1\<rparr>) sbu)
                  (Message.GivenReactions m)"
      from Some body have ud': "ud' = AList.update d sbu3 ud1"
        by (simp add: body_eq sbu3_def)
      from Some k0 have au: "User m \<in> dom us" by (simp add: lookupOrCreate_known)
      have "posts_in U sbu3 = posts_in U sbu0 + (if U = User m then 1 else 0)"
        unfolding sbu3_def using Some by (rule bucket_posts)
      then have "posts_of_day U ud' = posts_of_day U ud + (if U = User m then 1 else 0)"
        by (simp add: ud' posts_of_day_update at sum1)
      moreover have "known_bucket us sbu3"
        unfolding sbu3_def using Some k0 by (rule bucket_known)
      then have "known_days us ud'"
        using k1 by (simp add: ud' known_days_def list_all_update)
      ultimately show ?thesis using p au by auto
    qed
  qed
qed

lemma authored_Nil: "authored h U [] = 0"
  by (simp add: authored_def)

lemma authored_Cons:
  "authored h U (m # ms) = (if User m = U \<and> parseable h m then 1 else 0) + authored h U ms"
  by (simp add: authored_def)

lemma messages_loop_posts:
  assumes "messages_loop h (Some us) ud messages = (ud', out)" "known_days us ud"
  shows "posts_of_day U ud' =
           posts_of_day U ud + (if U \<in> dom us then authored h U (reached h messages) else 0)
         \<and> known_days us ud'"
  using assms
proof (induction messages arbitrary: ud)
  case Nil
  then show ?case by (simp add: reached_def authored_Nil)
next
  case (Cons m rest)
  show ?case
  proof (cases "message_body h (Some us) ud m")
    case (Stop line)
    then have "unparseable h m" by (simp add: message_body_Stop)
    then have "reached h (m # rest) = []" by (simp add: reached_def)
    moreover from Stop Cons.prems have "ud' = ud" by simp
    ultimately show ?thesis using Cons.prems(2) by (simp add: authored_Nil)
  next
    case (Next ud1)
    have "\<not> unparseable h m"
    proof
      assume "unparseable h m"
      then have "\<exists>line. message_body h (Some us) ud m = Stop line" by (simp add: message_body_Stop)
      with Next show False by simp
    qed
    then have r: "reached h (m # rest) = m # reached h rest" by (simp add: reached_def)
    from Next Cons.prems(2) have
      step: "posts_of_day U ud1 =
               posts_of_day U ud + (if User m = U \<and> parseable h m \<and> U \<in> dom us then 1 else 0)"
      and k1: "known_days us ud1"
      by (simp_all add: message_body_posts)
    from Next Cons.prems(1) have "messages_loop h (Some us) ud1 rest = (ud', out)" by simp
    from Cons.IH [OF this k1] show ?thesis
      by (simp add: step r authored_Cons)
  qed
qed

lemma posts_of_user_update:
  "posts_of_user U (AList.update c ud t) =
     posts_of_user U t - (case map_of t c of None \<Rightarrow> 0 | Some old \<Rightarrow> posts_of_day U old) + posts_of_day U ud"
  unfolding posts_of_user_def by (rule sum_update)

lemma posts_of_day_Nil: "posts_of_day U [] = 0"
  by (simp add: posts_of_day_def)

lemma known_days_Nil: "known_days us []"
  by (simp add: known_days_def)

lemma updateStats_posts:
  assumes known: "known_table us t"
  shows "posts_of_user U (fst (updateStats h t c messages (Some us))) =
           posts_of_user U t + (if U \<in> dom us then authored h U (reached h messages) else 0)
         \<and> known_table us (fst (updateStats h t c messages (Some us)))"
proof -
  define ud where "ud = (case map_of t c of None \<Rightarrow> [] | Some ud \<Rightarrow> ud)"
  define t1 where "t1 = (case map_of t c of None \<Rightarrow> AList.update c [] t | Some ud \<Rightarrow> t)"
  define r where "r = messages_loop h (Some us) ud messages"
  have res: "fst (updateStats h t c messages (Some us)) = AList.update c (fst r) t1"
    unfolding updateStats_def r_def ud_def t1_def by (simp add: Let_def)
  have at: "map_of t1 c = Some ud"
    by (simp add: t1_def ud_def update_conv' split: option.splits)
  have sum1: "posts_of_user U t1 = posts_of_user U t"
    by (simp add: t1_def posts_of_user_update posts_of_day_Nil split: option.splits)
  have k0: "known_days us ud"
    using known by (auto simp: ud_def known_days_Nil known_table_def split: option.splits
        dest: list_all_map_of)
  have k1: "known_table us t1"
    using known by (simp add: t1_def known_table_def list_all_update known_days_Nil split: option.splits)
  have "messages_loop h (Some us) ud messages = (fst r, snd r)" by (simp add: r_def)
  from messages_loop_posts [OF this k0]
  have loop: "posts_of_day U (fst r) =
           posts_of_day U ud + (if U \<in> dom us then authored h U (reached h messages) else 0)"
    and k2: "known_days us (fst r)" by simp_all
  have "posts_of_user U (AList.update c (fst r) t1) =
          posts_of_user U t + (if U \<in> dom us then authored h U (reached h messages) else 0)"
    by (simp add: posts_of_user_update at sum1 loop)
  moreover have "known_table us (AList.update c (fst r) t1)"
    using k1 k2 by (simp add: known_table_def list_all_update)
  ultimately show ?thesis by (simp add: res)
qed

lemma walkFn_posts:
  assumes "walkFn h basePath (Some us) st e = Inr st'" "known_table us (Table st)"
  shows "posts_of_user U (Table st') =
           posts_of_user U (Table st) +
           (if U \<in> dom us then authored h U (reached h (entry_messages h basePath e)) else 0)
         \<and> known_table us (Table st')"
proof (cases e)
  case (WalkEntry path isDir err)
  show ?thesis
  proof (cases "err = None \<and> \<not> isDir \<and> Ext h path = ''.json'' \<and> Base h (Dir h path) \<noteq> Base h basePath")
    case False
    with assms WalkEntry have "st' = st" "entry_messages h basePath e = []"
      by (auto simp: walkFn_def entry_messages_def Let_def split: option.splits if_splits)
    with assms(2) show ?thesis by (simp add: reached_def authored_Nil)
  next
    case True
    with assms(1) WalkEntry obtain messages where
      rd: "readMessagesFromJSONFile h path = Inr messages" and
      st': "Table st' = fst (updateStats h (Table st) (Base h (Dir h path)) messages (Some us))"
      by (auto simp: walkFn_def Let_def split: sum.splits)
    from True WalkEntry rd have "entry_messages h basePath e = messages"
      by (simp add: entry_messages_def)
    with updateStats_posts [OF assms(2), of U h "Base h (Dir h path)" messages] st'
    show ?thesis by simp
  qed
qed

lemma walk_loop_posts:
  assumes "walk_loop h basePath (Some us) st entries = Inr st'" "known_table us (Table st)"
  shows "posts_of_user U (Table st') =
           posts_of_user U (Table st) +
           (if U \<in> dom us
            then sum_list (map (\<lambda>e. authored h U (reached h (entry_messages h basePath e))) entries)
            else 0)
         \<and> known_table us (Table st')"
  using assms
proof (induction entries arbitrary: st)
  case Nil
  then show ?case by simp
next
  case (Cons e es)
  from Cons.prems(1) obtain st1 where
    e: "walkFn h basePath (Some us) st e = Inr st1" and
    es: "walk_loop h basePath (Some us) st1 es = Inr st'"
    by (auto split: sum.splits)
  from walkFn_posts [OF e Cons.prems(2), of U] have
    step: "posts_of_user U (Table st1) =
           posts_of_user U (Table st) +
           (if U \<in> dom us then authored h U (reached h (entry_messages h basePath e)) else 0)"
    and k1: "known_table us (Table st1)" by simp_all
  from Cons.IH [OF es k1] show ?case by (simp add: step)
qed

section \<open>The sample run\<close>

lemma demo_loadUsers: "loadUsers demo ''export/users.json'' = Inr demo_users"
  by (simp add: loadUsers_def addUser_def demo_def demo_users_def alice_def bob_def)

lemma demo_walk:
  "walk_loop demo ''export'' (Some demo_users) \<lparr>Table = [], Out = []\<rparr> (Walk demo ''export'') =
     Inr \<lparr>Table = demo_table, Out = [''Error parsing timestamp: invalid syntax'']\<rparr>"
  by (simp add: demo_defs code_defs demo_users_def demo_table_def insert_commute)

lemma demo_export:
  "exportCSV demo ''./export.csv'' demo_table = (None, Some demo_csv)"
  by (simp add: exportCSV_def demo_def demo_table_def demo_csv_def rows_def row_def Itoa_def
      FormatBool_def digits.simps)

lemma demo_main:
  "main demo =
     Inr \<lparr>Printed = [''Error parsing timestamp: invalid syntax'',
                      ''./export.csv  file created successfully.''],
          Csv = Some (''./export.csv'', demo_csv)\<rparr>"
proof -
  have a: "Args demo = [''converter'', ''export'']" by (simp add: demo_def)
  have o: "outputName ''export'' = ''./export.csv''" by (simp add: outputName_def)
  show ?thesis
    by (simp add: main_def a o demo_loadUsers demo_walk demo_export)
qed

lemma demo_entry_messages:
  "map (entry_messages demo ''export'') (Walk demo ''export'') =
     [] # [] # [hi, broken, late] # [] # [news, ghost, blank] # [] # []"
  by (simp add: entry_messages_def readMessagesFromJSONFile_def demo_def cleanBase_def
      cleanDir_def cleanExt_def)

section \<open>Loading users and writing records\<close>

lemma addUser_apply:
  "addUser m x k = (if k = ID x then Some (reduceUser x) else m k)"
  by (simp add: addUser_def)

lemma users_fold_other:
  "k \<notin> ID ` set users \<Longrightarrow> foldl addUser m users k = m k"
  by (induction users arbitrary: m) (auto simp: addUser_apply dom_def)

lemma users_fold_dom:
  "dom (foldl addUser m users) = dom m \<union> ID ` set users"
  by (induction users arbitrary: m) (auto simp: addUser_apply dom_def)

lemma users_fold_get:
  "distinct (map ID users) \<Longrightarrow> u \<in> set users \<Longrightarrow>
   foldl addUser m users (ID u) = Some (reduceUser u)"
proof (induction users arbitrary: m)
  case Nil
  then show ?case by simp
next
  case (Cons x xs)
  show ?case
  proof (cases "u \<in> set xs")
    case True
    with Cons show ?thesis by simp
  next
    case False
    with Cons.prems have ux: "u = x" and nin: "ID x \<notin> ID ` set xs" by auto
    from nin have "foldl addUser (addUser m x) xs (ID x) = addUser m x (ID x)"
      by (rule users_fold_other)
    moreover have "addUser m x (ID x) = Some (reduceUser x)" by (simp add: addUser_apply)
    ultimately show ?thesis by (simp add: ux)
  qed
qed

lemma write_all_prefix:
  "write_all werr n written rs = (err, out) \<Longrightarrow>
   \<exists>k \<le> length rs. out = written @ take k rs \<and> (err = None \<longrightarrow> k = length rs)"
proof (induction rs arbitrary: n written)
  case Nil
  then show ?case by simp
next
  case (Cons r rs)
  show ?case
  proof (cases "werr n")
    case (Some e)
    from Cons.prems have "(err, out) = (Some e, written)" by (simp add: Some)
    then have "out = written @ take 0 (r # rs)" "err \<noteq> None" by simp_all
    then show ?thesis by blast
  next
    case None
    with Cons.prems have "write_all werr (Suc n) (written @ [r]) rs = (err, out)" by simp
    from Cons.IH [OF this] obtain k where
      k: "k \<le> length rs" "out = (written @ [r]) @ take k rs" "err = None \<longrightarrow> k = length rs"
      by blast
    then have "Suc k \<le> length (r # rs)" "out = written @ take (Suc k) (r # rs)"
      "err = None \<longrightarrow> Suc k = length (r # rs)" by simp_all
    then show ?thesis by blast
  qed
qed

lemma exportCSV_prefix:
  assumes "exportCSV h fileName t = (err, Some recs)"
  shows "recs = take (length recs) (header # rows t) \<and> (err = None \<longrightarrow> recs = header # rows t)"
proof -
  from assms have "write_all (WriteErr h) 0 [] (header # rows t) = (err, recs)"
    by (auto simp: exportCSV_def Let_def split: option.splits prod.splits)
  from write_all_prefix [OF this] obtain k where
    k: "k \<le> length (header # rows t)" "recs = take k (header # rows t)"
       "err = None \<longrightarrow> k = length (header # rows t)" by auto
  from k(1,2) have "length recs = k" by simp
  with k show ?thesis by auto
qed

lemma rows_iff:
  "r \<in> set (rows t) \<longleftrightarrow>
     (\<exists>c ud d us uid s. (c, ud) \<in> set t \<and> (d, us) \<in> set ud \<and> (uid, s) \<in> set us \<and> r = row c d s)"
proof -
  have "r \<in> set (rows t) \<longleftrightarrow>
        (\<exists>x \<in> set t. \<exists>y \<in> set (snd x). \<exists>z \<in> set (snd y). r = row (fst x) (fst y) (snd z))"
    unfolding rows_def by (auto simp: case_prod_beta)
  also have "\<dots> \<longleftrightarrow>
        (\<exists>c ud d us uid s. (c, ud) \<in> set t \<and> (d, us) \<in> set ud \<and> (uid, s) \<in> set us \<and> r = row c d s)"
    by (simp add: Bex_def)
  finally show ?thesis .
qed

section \<open>Early return, the walk and the way to the export\<close>

lemma messages_loop_clean:
  "list_all (\<lambda>x. \<not> unparseable h x) pre \<Longrightarrow>
   messages_loop h (Some us) ud (pre @ rest) =
     messages_loop h (Some us) (fst (messages_loop h (Some us) ud pre)) rest"
proof (induction pre arbitrary: ud)
  case Nil
  then show ?case by simp
next
  case (Cons x xs)
  show ?case
  proof (cases "message_body h (Some us) ud x")
    case (Stop line)
    then have "unparseable h x" by (simp add: message_body_Stop)
    with Cons.prems show ?thesis by simp
  next
    case (Next ud1)
    with Cons show ?thesis by simp
  qed
qed

lemma messages_loop_stop:
  "unparseable h m \<Longrightarrow>
   messages_loop h (Some us) ud (m # rest) =
     (ud, [''Error parsing timestamp: '' @ projl (ParseFloat h (Timestamp m))])"
proof -
  assume "unparseable h m"
  then have "message_body h (Some us) ud m =
      Stop (''Error parsing timestamp: '' @ projl (ParseFloat h (Timestamp m)))"
    by (simp add: message_body_Stop)
  then show ?thesis by simp
qed

lemma updateStats_stop:
  assumes "unparseable h m" "list_all (\<lambda>x. \<not> unparseable h x) pre"
  shows "updateStats h t c (pre @ m # rest) (Some us) =
           (fst (updateStats h t c pre (Some us)),
            [''Error parsing timestamp: '' @ projl (ParseFloat h (Timestamp m))])"
proof -
  define ud where "ud = (case map_of t c of None \<Rightarrow> [] | Some ud \<Rightarrow> ud)"
  have "messages_loop h (Some us) ud (pre @ m # rest) =
          messages_loop h (Some us) (fst (messages_loop h (Some us) ud pre)) (m # rest)"
    using assms(2) by (rule messages_loop_clean)
  also have "\<dots> = (fst (messages_loop h (Some us) ud pre),
           [''Error parsing timestamp: '' @ projl (ParseFloat h (Timestamp m))])"
    using assms(1) by (rule messages_loop_stop)
  finally show ?thesis
    unfolding updateStats_def ud_def by (simp add: Let_def)
qed

lemma walk_loop_ok:
  "list_all (entry_ok h basePath) entries \<Longrightarrow> \<exists>st'. walk_loop h basePath users st entries = Inr st'"
proof (induction entries arbitrary: st)
  case Nil
  then show ?case by simp
next
  case (Cons e es)
  from Cons.prems have "entry_ok h basePath e" by simp
  then have "\<exists>st1. walkFn h basePath users st e = Inr st1"
  proof (cases e)
    case (WalkEntry path isDir err)
    assume "entry_ok h basePath e"
    with WalkEntry show ?thesis
      by (cases "readMessagesFromJSONFile h path")
        (auto simp: entry_ok_def walkFn_def Let_def split: if_splits)
  qed
  then obtain st1 where "walkFn h basePath users st e = Inr st1" by blast
  moreover from Cons have "\<exists>st'. walk_loop h basePath users st1 es = Inr st'" by simp
  ultimately show ?case by simp
qed

lemma main_reaches_export:
  assumes "length (Args h) = 2" "loadUsers h (Args h ! 1 @ ''/users.json'') = Inr us"
    and "walk_loop h (Args h ! 1) (Some us) \<lparr>Table = [], Out = []\<rparr> (Walk h (Args h ! 1)) = Inr st"
  shows "main h =
     Inr \<lparr>Printed = Out st @ [success_line (Args h ! 1)],
          Csv = map_option (\<lambda>recs. (outputName (Args h ! 1), recs))
                  (snd (exportCSV h (outputName (Args h ! 1)) (Table st)))\<rparr>"
  using assms by (simp add: main_def Let_def success_line_def)

section \<open>The sample run with a failing export\<close>

lemma demo_readonly_main:
  "main demo_readonly =
     Inr \<lparr>Printed = [''Error parsing timestamp: invalid syntax'',
                      ''./export.csv  file created successfully.''],
          Csv = None\<rparr>"
proof -
  have a: "Args demo_readonly = [''converter'', ''export'']" by (simp add: demo_readonly_def demo_def)
  have u: "loadUsers demo_readonly ''export/users.json'' = Inr demo_users"
    by (simp add: loadUsers_def addUser_def demo_readonly_def demo_def demo_users_def alice_def bob_def)
  have w: "walk_loop demo_readonly ''export'' (Some demo_users) \<lparr>Table = [], Out = []\<rparr>
             (Walk demo_readonly ''export'') =
           Inr \<lparr>Table = demo_table, Out = [''Error parsing timestamp: invalid syntax'']\<rparr>"
    by (simp add: demo_readonly_def demo_defs code_defs demo_users_def demo_table_def insert_commute)
  have e: "exportCSV demo_readonly ''./export.csv'' demo_table = (Some ''permission denied'', None)"
    by (simp add: exportCSV_def demo_readonly_def demo_def)
  have "length (Args demo_readonly) = 2" by (simp add: a)
  from main_reaches_export [OF this, of demo_users] u w e show ?thesis
    by (simp add: a success_line_def outputName_def)
qed

lemma demo_full_main:
  "main demo_full =
     Inr \<lparr>Printed = [''Error parsing timestamp: invalid syntax'',
                      ''./export.csv  file created successfully.''],
          Csv = Some (''./export.csv'', take 2 demo_csv)\<rparr>"
proof -
  have a: "Args demo_full = [''converter'', ''export'']" by (simp add: demo_full_def demo_def)
  have u: "loadUsers demo_full ''export/users.json'' = Inr demo_users"
    by (simp add: loadUsers_def addUser_def demo_full_def demo_def demo_users_def alice_def bob_def)
  have w: "walk_loop demo_full ''export'' (Some demo_users) \<lparr>Table = [], Out = []\<rparr>
             (Walk demo_full ''export'') =
           Inr \<lparr>Table = demo_table, Out = [''Error parsing timestamp: invalid syntax'']\<rparr>"
    by (simp add: demo_full_def demo_defs code_defs demo_users_def demo_table_def insert_commute)
  have e: "exportCSV demo_full ''./export.csv'' demo_table =
             (Some ''no space left on device'', Some (take 2 demo_csv))"
    by (simp add: exportCSV_def demo_full_def demo_def demo_table_def demo_csv_def rows_def row_def
        Itoa_def FormatBool_def digits.simps)
  have "length (Args demo_full) = 2" by (simp add: a)
  from main_reaches_export [OF this, of demo_users] u w e show ?thesis
    by (simp add: a success_line_def outputName_def)
qed

section \<open>One reactor occurrence\<close>


lemma react_unknown_reactor:
  assumes "known_bucket users m" and "users reactor = None"
  shows "react users author m reactor = m"
proof -
  from assms have "reactor \<notin> fst ` set m" by (auto simp: known_bucket_def)
  then have "map_of m reactor = None" by (simp add: map_of_eq_None_iff)
  with assms(2) have "lookupOrCreate users m reactor = None" by (simp add: lookupOrCreate_None)
  then show ?thesis by (simp add: react_def)
qed

section \<open>Reactors that are absent from the lookup table\<close>

lemma foldl_react_known:
  "known_bucket us m \<Longrightarrow> foldl (react us a) m (present us xs) = foldl (react us a) m xs"
proof (induction xs arbitrary: m)
  case Nil
  then show ?case by (simp add: present_def)
next
  case (Cons x xs)
  show ?case
  proof (cases "us x")
    case None
    with Cons.prems have "react us a m x = m" by (simp add: react_unknown_reactor)
    with None Cons show ?thesis by (simp add: present_def)
  next
    case (Some u)
    from Cons.prems have "known_bucket us (react us a m x)" by (rule known_react)
    with Some Cons.IH show ?thesis by (simp add: present_def)
  qed
qed

lemma known_foldl_react: "known_bucket us m \<Longrightarrow> known_bucket us (foldl (react us a) m xs)"
  by (induction xs arbitrary: m) (simp_all add: known_react)

lemma reactions_known:
  "known_bucket us m \<Longrightarrow>
   reactions us a m
     (map (\<lambda>reaction. reaction\<lparr>Users := present us (Users reaction)\<rparr>) rs) =
   reactions us a m rs"
  unfolding reactions_def
proof (induction rs arbitrary: m)
  case Nil
  then show ?case by simp
next
  case (Cons r rs)
  from Cons.prems have "known_bucket us (foldl (react us a) m (Users r))"
    by (rule known_foldl_react)
  with Cons show ?case by (simp add: foldl_react_known)
qed

lemma message_body_known_reactions:
  assumes "known_days us ud"
  shows "message_body h (Some us) ud (known_reactions us m) = message_body h (Some us) ud m"
proof (cases "Timestamp m = []")
  case True
  then show ?thesis by (simp add: message_body_def known_reactions_def)
next
  case ts: False
  show ?thesis
  proof (cases "ParseFloat h (Timestamp m)")
    case (Inl err)
    with ts show ?thesis by (simp add: message_body_def known_reactions_def)
  next
    case (Inr floatTs)
    define sbu0 where "sbu0 = (case map_of ud (FormatDay h floatTs) of None \<Rightarrow> [] | Some sbu \<Rightarrow> sbu)"
    have k0: "known_bucket us sbu0"
      using assms by (auto simp: sbu0_def known_bucket_Nil known_days_def split: option.splits
          dest: list_all_map_of)
    show ?thesis
    proof (cases "lookupOrCreate us sbu0 (User m)")
      case None
      with ts Inr show ?thesis
        by (simp add: message_body_def known_reactions_def Let_def sbu0_def)
    next
      case (Some sbu)
      with k0 have "known_bucket us sbu" by (simp add: lookupOrCreate_known)
      then have "known_bucket us (modify (User m) (\<lambda>s. s\<lparr>Posts := Posts s + 1\<rparr>) sbu)"
        by (simp add: known_bucket_def keys_modify)
      from reactions_known [OF this] Some ts Inr show ?thesis
        by (simp add: message_body_def known_reactions_def Let_def sbu0_def)
    qed
  qed
qed

lemma messages_loop_known_reactions:
  "known_days us ud \<Longrightarrow>
   messages_loop h (Some us) ud (map (known_reactions us) messages) =
   messages_loop h (Some us) ud messages"
proof (induction messages arbitrary: ud)
  case Nil
  then show ?case by simp
next
  case (Cons m rest)
  show ?case
  proof (cases "message_body h (Some us) ud m")
    case (Stop line)
    with Cons.prems show ?thesis by (simp add: message_body_known_reactions)
  next
    case (Next ud1)
    with Cons.prems have "known_days us ud1" by (simp add: message_body_posts)
    with Next Cons show ?thesis by (simp add: message_body_known_reactions)
  qed
qed

lemma updateStats_known_reactions:
  assumes "known_table us t"
  shows "updateStats h t c (map (known_reactions us) messages) (Some us) =
         updateStats h t c messages (Some us)"
proof -
  define ud where "ud = (case map_of t c of None \<Rightarrow> [] | Some ud \<Rightarrow> ud)"
  have "known_days us ud"
    using assms by (auto simp: ud_def known_days_Nil known_table_def split: option.splits
        dest: list_all_map_of)
  then have "messages_loop h (Some us) ud (map (known_reactions us) messages) =
             messages_loop h (Some us) ud messages"
    by (rule messages_loop_known_reactions)
  then show ?thesis unfolding updateStats_def ud_def by simp
qed

section \<open>The name of a user is never carried along\<close>

lemma unnamed_modify:
  assumes "unnamed_bucket m" and "\<And>s. Stats.Name (f s) = Stats.Name s"
  shows "unnamed_bucket (modify k f m)"
proof (cases "map_of m k")
  case None
  with assms(1) show ?thesis by (simp add: modify_def)
next
  case (Some s)
  with assms(1) have "Stats.Name s = []"
    unfolding unnamed_bucket_def by (auto dest: list_all_map_of)
  with assms Some show ?thesis
    by (simp add: modify_def unnamed_bucket_def list_all_update)
qed

lemma unnamed_lookupOrCreate:
  assumes "\<forall>k u. us k = Some u \<longrightarrow> User.Name u = []"
    and "lookupOrCreate us m k = Some m'" and "unnamed_bucket m"
  shows "unnamed_bucket m'"
proof (cases "map_of m k")
  case (Some s)
  with assms(2,3) show ?thesis by (simp add: lookupOrCreate_def)
next
  case None
  with assms(2) obtain u where u: "us k = Some u" "m' = AList.update k (newStats u) m"
    by (auto simp: lookupOrCreate_def split: option.splits)
  from u(1) have "Stats.Name (newStats u) = []" by (simp add: newStats_def assms(1))
  with u(2) assms(3) show ?thesis by (simp add: unnamed_bucket_def list_all_update)
qed

lemma unnamed_react:
  assumes "\<forall>k u. us k = Some u \<longrightarrow> User.Name u = []" and "unnamed_bucket m"
  shows "unnamed_bucket (react us a m r)"
proof (cases "lookupOrCreate us m r")
  case None
  with assms(2) show ?thesis by (simp add: react_def)
next
  case (Some m')
  from assms(1) Some assms(2) have "unnamed_bucket m'" by (rule unnamed_lookupOrCreate)
  with Some show ?thesis by (simp add: react_def unnamed_modify)
qed

lemma unnamed_reactions:
  assumes "\<forall>k u. us k = Some u \<longrightarrow> User.Name u = []" and "unnamed_bucket m"
  shows "unnamed_bucket (reactions us a m rs)"
proof -
  have inner: "unnamed_bucket m \<Longrightarrow> unnamed_bucket (foldl (react us a) m xs)" for m xs
    by (induction xs arbitrary: m) (simp_all add: unnamed_react assms(1))
  from assms(2) show ?thesis unfolding reactions_def
    by (induction rs arbitrary: m) (simp_all add: inner)
qed

lemma unnamed_message_body:
  assumes U: "\<forall>k u. us k = Some u \<longrightarrow> User.Name u = []"
    and body: "message_body h (Some us) ud m = Next ud'" and inv: "unnamed_days ud"
  shows "unnamed_days ud'"
proof (cases "Timestamp m = []")
  case True
  with body inv show ?thesis by (simp add: message_body_def)
next
  case ts: False
  show ?thesis
  proof (cases "ParseFloat h (Timestamp m)")
    case (Inl err)
    with ts body show ?thesis by (simp add: message_body_def)
  next
    case (Inr floatTs)
    define d where "d = FormatDay h floatTs"
    define sbu0 where "sbu0 = (case map_of ud d of None \<Rightarrow> [] | Some sbu \<Rightarrow> sbu)"
    define ud1 where "ud1 = (case map_of ud d of None \<Rightarrow> AList.update d [] ud | Some sbu \<Rightarrow> ud)"
    have body_eq: "message_body h (Some us) ud m =
        (case lookupOrCreate us sbu0 (User m) of
           None \<Rightarrow> Next ud1
         | Some sbu \<Rightarrow>
             Next (AList.update d
                     (reactions us (User m) (modify (User m) (\<lambda>s. s\<lparr>Posts := Posts s + 1\<rparr>) sbu)
                        (Message.GivenReactions m))
                     ud1))"
      unfolding message_body_def d_def sbu0_def ud1_def using ts Inr by (simp add: Let_def)
    have k0: "unnamed_bucket sbu0"
      using inv by (auto simp: sbu0_def unnamed_bucket_def unnamed_days_def split: option.splits
          dest: list_all_map_of)
    have k1: "unnamed_days ud1"
      using inv by (simp add: ud1_def unnamed_days_def unnamed_bucket_def list_all_update
          split: option.splits)
    show ?thesis
    proof (cases "lookupOrCreate us sbu0 (User m)")
      case None
      with body have "ud' = ud1" by (simp add: body_eq)
      with k1 show ?thesis by simp
    next
      case (Some sbu)
      from U Some k0 have "unnamed_bucket sbu" by (rule unnamed_lookupOrCreate)
      then have "unnamed_bucket (modify (User m) (\<lambda>s. s\<lparr>Posts := Posts s + 1\<rparr>) sbu)"
        by (simp add: unnamed_modify)
      with U have "unnamed_bucket (reactions us (User m)
          (modify (User m) (\<lambda>s. s\<lparr>Posts := Posts s + 1\<rparr>) sbu) (Message.GivenReactions m))"
        by (rule unnamed_reactions)
      moreover from Some body have "ud' = AList.update d
          (reactions us (User m) (modify (User m) (\<lambda>s. s\<lparr>Posts := Posts s + 1\<rparr>) sbu)
             (Message.GivenReactions m)) ud1"
        by (simp add: body_eq)
      ultimately show ?thesis using k1 by (simp add: unnamed_days_def list_all_update)
    qed
  qed
qed

lemma unnamed_messages_loop:
  assumes U: "\<forall>k u. us k = Some u \<longrightarrow> User.Name u = []"
  shows "unnamed_days ud \<Longrightarrow> unnamed_days (fst (messages_loop h (Some us) ud messages))"
proof (induction messages arbitrary: ud)
  case Nil
  then show ?case by simp
next
  case (Cons m rest)
  show ?case
  proof (cases "message_body h (Some us) ud m")
    case (Stop line)
    with Cons.prems show ?thesis by simp
  next
    case (Next ud1)
    from U Next Cons.prems have "unnamed_days ud1" by (rule unnamed_message_body)
    with Next Cons.IH show ?thesis by simp
  qed
qed

lemma unnamed_updateStats:
  assumes U: "\<forall>k u. us k = Some u \<longrightarrow> User.Name u = []" and inv: "unnamed_table t"
  shows "unnamed_table (fst (updateStats h t c messages (Some us)))"
proof -
  define ud where "ud = (case map_of t c of None \<Rightarrow> [] | Some ud \<Rightarrow> ud)"
  define t1 where "t1 = (case map_of t c of None \<Rightarrow> AList.update c [] t | Some ud \<Rightarrow> t)"
  have res: "fst (updateStats h t c messages (Some us)) =
      AList.update c (fst (messages_loop h (Some us) ud messages)) t1"
    unfolding updateStats_def ud_def t1_def by (simp add: Let_def)
  have "unnamed_days ud"
    using inv by (auto simp: ud_def unnamed_days_def unnamed_table_def split: option.splits
        dest: list_all_map_of)
  with U have "unnamed_days (fst (messages_loop h (Some us) ud messages))"
    by (rule unnamed_messages_loop)
  moreover have "unnamed_table t1"
    using inv by (simp add: t1_def unnamed_table_def unnamed_days_def list_all_update
        split: option.splits)
  ultimately show ?thesis by (simp add: res unnamed_table_def list_all_update)
qed

lemma walkFn_table:
  assumes "walkFn h basePath users st e = Inr st1"
  shows "Table st1 = Table st \<or>
         (\<exists>c messages. Table st1 = fst (updateStats h (Table st) c messages users))"
proof (cases e)
  case (WalkEntry path isDir err)
  show ?thesis
  proof (cases "\<not> isDir \<and> Ext h path = ''.json'' \<and> Base h (Dir h path) \<noteq> Base h basePath")
    case False
    with assms WalkEntry have "st1 = st"
      by (auto simp: walkFn_def Let_def split: option.splits if_splits)
    then show ?thesis by simp
  next
    case True
    with assms WalkEntry obtain messages where
      "Table st1 = fst (updateStats h (Table st) (Base h (Dir h path)) messages users)"
      by (auto simp: walkFn_def Let_def split: option.splits sum.splits)
    then show ?thesis by blast
  qed
qed

lemma unnamed_walk_loop:
  assumes U: "\<forall>k u. us k = Some u \<longrightarrow> User.Name u = []"
  shows "walk_loop h basePath (Some us) st entries = Inr st' \<Longrightarrow> unnamed_table (Table st) \<Longrightarrow>
         unnamed_table (Table st')"
proof (induction entries arbitrary: st)
  case Nil
  then show ?case by simp
next
  case (Cons e es)
  from Cons.prems(1) obtain st1 where
    e: "walkFn h basePath (Some us) st e = Inr st1" and
    es: "walk_loop h basePath (Some us) st1 es = Inr st'"
    by (auto split: sum.splits)
  from walkFn_table [OF e] Cons.prems(2) U have "unnamed_table (Table st1)"
    by (auto simp: unnamed_updateStats)
  with Cons.IH es show ?case by simp
qed

lemma users_fold_unnamed:
  "(\<And>k u. m k = Some u \<Longrightarrow> User.Name u = [] \<and> ID u = k) \<Longrightarrow>
   foldl addUser m users k = Some u \<Longrightarrow> User.Name u = [] \<and> ID u = k"
proof (induction users arbitrary: m)
  case Nil
  then show ?case by simp
next
  case (Cons x xs)
  have "\<And>k u. addUser m x k = Some u \<Longrightarrow> User.Name u = [] \<and> ID u = k"
    using Cons.prems(1) by (auto simp: addUser_apply reduceUser_def split: if_splits)
  moreover from Cons.prems(2) have "foldl addUser (addUser m x) xs k = Some u" by simp
  ultimately show ?case by (rule Cons.IH)
qed

lemma loadUsers_unnamed:
  assumes "loadUsers h usersFile = Inr us" and "us k = Some u"
  shows "User.Name u = [] \<and> ID u = k"
proof -
  from assms(1) obtain users where "us = foldl addUser Map.empty users"
    by (auto simp: loadUsers_def split: sum.splits)
  with assms(2) have "foldl addUser Map.empty users k = Some u" by simp
  moreover have "\<And>k u. Map.empty k = Some u \<Longrightarrow> User.Name u = [] \<and> ID u = k" by simp
  ultimately show ?thesis by (rule users_fold_unnamed [rotated])
qed

lemma unnamed_stats_at:
  assumes "unnamed_table t" and "stats_at t c d uid = Some s"
  shows "Stats.Name s = []"
proof -
  from assms(2) obtain ud sbu where
    "map_of t c = Some ud" "map_of ud d = Some sbu" "map_of sbu uid = Some s"
    by (auto simp: stats_at_def day_stats_def split: option.splits)
  with assms(1) show ?thesis
    unfolding unnamed_table_def unnamed_days_def unnamed_bucket_def
    by (auto dest!: list_all_map_of)
qed

lemma unnamed_rows:
  assumes "unnamed_table t" and "r \<in> set (rows t)"
  shows "r ! 1 = []"
proof -
  from assms(2) obtain c ud d us uid s where
    m: "(c, ud) \<in> set t" "(d, us) \<in> set ud" "(uid, s) \<in> set us" and r: "r = row c d s"
    unfolding rows_iff by blast
  from assms(1) m have "Stats.Name s = []"
    unfolding unnamed_table_def unnamed_days_def unnamed_bucket_def
    by (fastforce simp: list_all_iff)
  with r show ?thesis by (simp add: row_def)
qed

section \<open>Buckets: distinct keys, growing counters, new records\<close>
















section \<open>What one call of updateStats does to a record\<close>







section \<open>One record for each triple\<close>









section \<open>The accounting of the reactions of one message\<close>










section \<open>An unparseable timestamp\<close>

text \<open>
  C1, as stated: a message with a non-empty timestamp that does not parse halts the
  aggregation for the whole run, and no CSV file is produced. The sample run refutes it:
  \<open>broken\<close> in \<open>general/log.json\<close> has the timestamp \<open>not-a-number\<close>, the error is
  printed, and the run goes on: the file of channel \<open>random\<close>, visited later, is
  aggregated (the last row), the CSV is written and success is reported.
\<close>

theorem unparseable_timestamp_counterexample:
  "unparseable demo broken \<and>
   readMessagesFromJSONFile demo ''export/general/log.json'' = Inr [hi, broken, late] \<and>
   main demo =
     Inr \<lparr>Printed = [''Error parsing timestamp: invalid syntax'',
                      ''./export.csv  file created successfully.''],
          Csv = Some (''./export.csv'',
                  [header,
                   [''Alice'', '''', ''false'', ''false'', ''2023-11-14'', ''1'', ''2'', ''2'', ''1'', ''1'', ''general''],
                   [''Bob  Jr.'', '''', ''true'', ''false'', ''2023-11-14'', ''0'', ''0'', ''0'', ''1'', ''1'', ''general''],
                   [''Bob  Jr.'', '''', ''true'', ''false'', ''2023-11-14'', ''1'', ''0'', ''0'', ''0'', ''0'', ''random'']])\<rparr>"
proof -
  have "unparseable demo broken"
    by (simp add: unparseable_def demo_def broken_def)
  moreover have "readMessagesFromJSONFile demo ''export/general/log.json'' = Inr [hi, broken, late]"
    by (simp add: readMessagesFromJSONFile_def demo_def)
  ultimately show ?thesis
    using demo_main by (simp add: demo_csv_def)
qed

text \<open>
  C1, amended: a message with a non-empty timestamp that does not parse makes
  \<open>updateStats\<close> print the error and return, which ends the aggregation of the remaining
  messages of that file only: the messages before it stay aggregated. The callback returns
  no error for that file, so the walk goes on with the entries that follow it, from the
  table and the output reached by then. A run whose user file loads and whose walk meets
  no read or decode error calls \<open>exportCSV\<close> on the table the whole walk ends with and
  prints the success line, whatever the timestamps are.
\<close>

theorem unparseable_timestamp_stops_file:
  "(unparseable h m \<and> list_all (\<lambda>x. \<not> unparseable h x) pre \<longrightarrow>
      updateStats h t c (pre @ m # rest) (Some us) =
        (fst (updateStats h t c pre (Some us)),
         [''Error parsing timestamp: '' @ projl (ParseFloat h (Timestamp m))])) \<and>
   (\<not> isDir \<and> Ext h path = ''.json'' \<and> Base h (Dir h path) \<noteq> Base h basePath \<and>
    readMessagesFromJSONFile h path = Inr (pre @ m # rest) \<and>
    unparseable h m \<and> list_all (\<lambda>x. \<not> unparseable h x) pre \<longrightarrow>
      walk_loop h basePath (Some us) acc (WalkEntry path isDir None # es) =
        walk_loop h basePath (Some us)
          \<lparr>Table = fst (updateStats h (Table acc) (Base h (Dir h path)) pre (Some us)),
           Out = Out acc @ [''Error parsing timestamp: '' @ projl (ParseFloat h (Timestamp m))]\<rparr>
          es) \<and>
   (length (Args h) = 2 \<and> loadUsers h (Args h ! 1 @ ''/users.json'') = Inr us \<and>
    list_all (entry_ok h (Args h ! 1)) (Walk h (Args h ! 1)) \<longrightarrow>
      (\<exists>st. walk_loop h (Args h ! 1) (Some us) \<lparr>Table = [], Out = []\<rparr> (Walk h (Args h ! 1)) = Inr st \<and>
            main h =
              Inr \<lparr>Printed = Out st @ [outputName (Args h ! 1) @ ''  file created successfully.''],
                   Csv = map_option (\<lambda>recs. (outputName (Args h ! 1), recs))
                           (snd (exportCSV h (outputName (Args h ! 1)) (Table st)))\<rparr>))"
proof -
  have p1: "unparseable h m \<and> list_all (\<lambda>x. \<not> unparseable h x) pre \<longrightarrow>
      updateStats h t c (pre @ m # rest) (Some us) =
        (fst (updateStats h t c pre (Some us)),
         [''Error parsing timestamp: '' @ projl (ParseFloat h (Timestamp m))])"
    by (simp add: updateStats_stop)
  have p2: "\<not> isDir \<and> Ext h path = ''.json'' \<and> Base h (Dir h path) \<noteq> Base h basePath \<and>
    readMessagesFromJSONFile h path = Inr (pre @ m # rest) \<and>
    unparseable h m \<and> list_all (\<lambda>x. \<not> unparseable h x) pre \<longrightarrow>
      walk_loop h basePath (Some us) acc (WalkEntry path isDir None # es) =
        walk_loop h basePath (Some us)
          \<lparr>Table = fst (updateStats h (Table acc) (Base h (Dir h path)) pre (Some us)),
           Out = Out acc @ [''Error parsing timestamp: '' @ projl (ParseFloat h (Timestamp m))]\<rparr>
          es"
  proof
    assume a: "\<not> isDir \<and> Ext h path = ''.json'' \<and> Base h (Dir h path) \<noteq> Base h basePath \<and>
      readMessagesFromJSONFile h path = Inr (pre @ m # rest) \<and>
      unparseable h m \<and> list_all (\<lambda>x. \<not> unparseable h x) pre"
    then have u: "updateStats h (Table acc) (Base h (Dir h path)) (pre @ m # rest) (Some us) =
        (fst (updateStats h (Table acc) (Base h (Dir h path)) pre (Some us)),
         [''Error parsing timestamp: '' @ projl (ParseFloat h (Timestamp m))])"
      by (simp add: updateStats_stop)
    from a have "walkFn h basePath (Some us) acc (WalkEntry path isDir None) =
        Inr \<lparr>Table = fst (updateStats h (Table acc) (Base h (Dir h path)) pre (Some us)),
             Out = Out acc @ [''Error parsing timestamp: '' @ projl (ParseFloat h (Timestamp m))]\<rparr>"
      by (simp add: walkFn_def Let_def u)
    then show "walk_loop h basePath (Some us) acc (WalkEntry path isDir None # es) =
        walk_loop h basePath (Some us)
          \<lparr>Table = fst (updateStats h (Table acc) (Base h (Dir h path)) pre (Some us)),
           Out = Out acc @ [''Error parsing timestamp: '' @ projl (ParseFloat h (Timestamp m))]\<rparr>
          es"
      by simp
  qed
  have p3: "length (Args h) = 2 \<and> loadUsers h (Args h ! 1 @ ''/users.json'') = Inr us \<and>
    list_all (entry_ok h (Args h ! 1)) (Walk h (Args h ! 1)) \<longrightarrow>
      (\<exists>st. walk_loop h (Args h ! 1) (Some us) \<lparr>Table = [], Out = []\<rparr> (Walk h (Args h ! 1)) = Inr st \<and>
            main h =
              Inr \<lparr>Printed = Out st @ [outputName (Args h ! 1) @ ''  file created successfully.''],
                   Csv = map_option (\<lambda>recs. (outputName (Args h ! 1), recs))
                           (snd (exportCSV h (outputName (Args h ! 1)) (Table st)))\<rparr>)"
  proof
    assume a: "length (Args h) = 2 \<and> loadUsers h (Args h ! 1 @ ''/users.json'') = Inr us \<and>
      list_all (entry_ok h (Args h ! 1)) (Walk h (Args h ! 1))"
    then obtain st where
      st: "walk_loop h (Args h ! 1) (Some us) \<lparr>Table = [], Out = []\<rparr> (Walk h (Args h ! 1)) = Inr st"
      using walk_loop_ok by blast
    from a have "length (Args h) = 2" "loadUsers h (Args h ! 1 @ ''/users.json'') = Inr us"
      by simp_all
    from main_reaches_export [OF this st] st
    show "\<exists>st. walk_loop h (Args h ! 1) (Some us) \<lparr>Table = [], Out = []\<rparr> (Walk h (Args h ! 1)) = Inr st \<and>
            main h =
              Inr \<lparr>Printed = Out st @ [outputName (Args h ! 1) @ ''  file created successfully.''],
                   Csv = map_option (\<lambda>recs. (outputName (Args h ! 1), recs))
                           (snd (exportCSV h (outputName (Args h ! 1)) (Table st)))\<rparr>"
      by (simp add: success_line_def)
  qed
  from p1 p2 p3 show ?thesis by (intro conjI)
qed

text \<open>
  The sample: \<open>hi\<close> comes before \<open>broken\<close> and stays counted, \<open>late\<close> comes after it
  and is dropped. After \<open>general/log.json\<close> the walk goes on with the three entries that
  follow, so the table it ends with holds the post of \<open>news\<close> in channel \<open>random\<close>; the
  run ends with the success line and exports that table.
\<close>

theorem unparseable_timestamp_stops_file_witness:
  "unparseable demo broken \<and> list_all (\<lambda>x. \<not> unparseable demo x) [hi] \<and>
   updateStats demo [] ''general'' ([hi] @ broken # [late]) (Some demo_users) =
     (fst (updateStats demo [] ''general'' [hi] (Some demo_users)),
      [''Error parsing timestamp: invalid syntax'']) \<and>
   Ext demo ''export/general/log.json'' = ''.json'' \<and>
   Base demo (Dir demo ''export/general/log.json'') = ''general'' \<and> Base demo ''export'' = ''export'' \<and>
   readMessagesFromJSONFile demo ''export/general/log.json'' = Inr ([hi] @ broken # [late]) \<and>
   walk_loop demo ''export'' (Some demo_users) \<lparr>Table = [], Out = []\<rparr>
     (WalkEntry ''export/general/log.json'' False None #
      [WalkEntry ''export/random'' True None, WalkEntry ''export/random/log.json'' False None,
       WalkEntry ''export/users.json'' False None]) =
   walk_loop demo ''export'' (Some demo_users)
     \<lparr>Table = fst (updateStats demo [] ''general'' [hi] (Some demo_users)),
      Out = [''Error parsing timestamp: invalid syntax'']\<rparr>
     [WalkEntry ''export/random'' True None, WalkEntry ''export/random/log.json'' False None,
      WalkEntry ''export/users.json'' False None] \<and>
   walk_loop demo ''export'' (Some demo_users)
     \<lparr>Table = fst (updateStats demo [] ''general'' [hi] (Some demo_users)),
      Out = [''Error parsing timestamp: invalid syntax'']\<rparr>
     [WalkEntry ''export/random'' True None, WalkEntry ''export/random/log.json'' False None,
      WalkEntry ''export/users.json'' False None] =
     Inr \<lparr>Table = demo_table, Out = [''Error parsing timestamp: invalid syntax'']\<rparr> \<and>
   posts_of_user ''U2'' demo_table = 1 \<and>
   length (Args demo) = 2 \<and> loadUsers demo (Args demo ! 1 @ ''/users.json'') = Inr demo_users \<and>
   list_all (entry_ok demo (Args demo ! 1)) (Walk demo (Args demo ! 1)) \<and>
   main demo =
     Inr \<lparr>Printed = [''Error parsing timestamp: invalid syntax'',
                      ''./export.csv  file created successfully.''],
          Csv = map_option (\<lambda>recs. (''./export.csv'', recs))
                  (snd (exportCSV demo ''./export.csv'' demo_table))\<rparr>"
proof -
  have argl: "Args demo = [''converter'', ''export'']" by (simp add: demo_def)
  have args: "Args demo ! 1 = ''export''" "length (Args demo) = 2" by (simp_all add: argl)
  have h1: "unparseable demo broken \<and> list_all (\<lambda>x. \<not> unparseable demo x) [hi]"
    by (simp add: unparseable_def demo_def broken_def hi_def)
  have pth: "Ext demo ''export/general/log.json'' = ''.json''"
    "Base demo (Dir demo ''export/general/log.json'') = ''general''" "Base demo ''export'' = ''export''"
    by (simp_all add: demo_def cleanBase_def cleanDir_def cleanExt_def)
  have rd: "readMessagesFromJSONFile demo ''export/general/log.json'' = Inr ([hi] @ broken # [late])"
    by (simp add: readMessagesFromJSONFile_def demo_def)
  have h2: "length (Args demo) = 2 \<and> loadUsers demo (Args demo ! 1 @ ''/users.json'') = Inr demo_users \<and>
      list_all (entry_ok demo (Args demo ! 1)) (Walk demo (Args demo ! 1))"
    using demo_loadUsers
    by (simp add: args, simp add: entry_ok_def readMessagesFromJSONFile_def demo_def cleanBase_def
        cleanDir_def cleanExt_def)
  have p: "projl (ParseFloat demo (Timestamp broken)) = ''invalid syntax''"
    by (simp add: demo_def broken_def)
  have o: "outputName ''export'' = ''./export.csv''" by (simp add: outputName_def)
  have w: "Walk demo ''export'' =
      WalkEntry ''export'' True None # WalkEntry ''export/general'' True None #
      WalkEntry ''export/general/log.json'' False None #
      [WalkEntry ''export/random'' True None, WalkEntry ''export/random/log.json'' False None,
       WalkEntry ''export/users.json'' False None]"
    by (simp add: demo_def)
  have skip: "walk_loop demo ''export'' (Some demo_users) \<lparr>Table = [], Out = []\<rparr> (Walk demo ''export'') =
      walk_loop demo ''export'' (Some demo_users) \<lparr>Table = [], Out = []\<rparr>
        (WalkEntry ''export/general/log.json'' False None #
         [WalkEntry ''export/random'' True None, WalkEntry ''export/random/log.json'' False None,
          WalkEntry ''export/users.json'' False None])"
    unfolding w by (simp add: walkFn_def)
  note T = unparseable_timestamp_stops_file
    [where h = demo and m = broken and pre = "[hi]" and rest = "[late]" and us = demo_users]
  from T [where t = "[]" and c = "''general''", THEN conjunct1, THEN mp, OF h1]
  have c1: "updateStats demo [] ''general'' ([hi] @ broken # [late]) (Some demo_users) =
     (fst (updateStats demo [] ''general'' [hi] (Some demo_users)),
      [''Error parsing timestamp: invalid syntax''])"
    by (simp add: p)
  from T [where isDir = False and path = "''export/general/log.json''" and basePath = "''export''"
      and acc = "\<lparr>Table = [], Out = []\<rparr>"
      and es = "[WalkEntry ''export/random'' True None, WalkEntry ''export/random/log.json'' False None,
        WalkEntry ''export/users.json'' False None]", THEN conjunct2, THEN conjunct1] h1 pth rd
  have c2: "walk_loop demo ''export'' (Some demo_users) \<lparr>Table = [], Out = []\<rparr>
     (WalkEntry ''export/general/log.json'' False None #
      [WalkEntry ''export/random'' True None, WalkEntry ''export/random/log.json'' False None,
       WalkEntry ''export/users.json'' False None]) =
   walk_loop demo ''export'' (Some demo_users)
     \<lparr>Table = fst (updateStats demo [] ''general'' [hi] (Some demo_users)),
      Out = [''Error parsing timestamp: invalid syntax'']\<rparr>
     [WalkEntry ''export/random'' True None, WalkEntry ''export/random/log.json'' False None,
      WalkEntry ''export/users.json'' False None]"
    by (simp add: p)
  from c2 skip demo_walk
  have c3: "walk_loop demo ''export'' (Some demo_users)
     \<lparr>Table = fst (updateStats demo [] ''general'' [hi] (Some demo_users)),
      Out = [''Error parsing timestamp: invalid syntax'']\<rparr>
     [WalkEntry ''export/random'' True None, WalkEntry ''export/random/log.json'' False None,
      WalkEntry ''export/users.json'' False None] =
     Inr \<lparr>Table = demo_table, Out = [''Error parsing timestamp: invalid syntax'']\<rparr>"
    by simp
  have c4: "posts_of_user ''U2'' demo_table = 1"
    by (simp add: posts_of_user_def posts_of_day_def posts_in_def demo_table_def)
  from T [THEN conjunct2, THEN conjunct2, THEN mp, OF h2] obtain st :: state where
    wst: "walk_loop demo (Args demo ! 1) (Some demo_users) \<lparr>Table = [], Out = []\<rparr>
            (Walk demo (Args demo ! 1)) = Inr st" and
    m: "main demo =
          Inr \<lparr>Printed = Out st @ [outputName (Args demo ! 1) @ ''  file created successfully.''],
               Csv = map_option (Pair (outputName (Args demo ! 1)))
                       (snd (exportCSV demo (outputName (Args demo ! 1)) (Table st)))\<rparr>"
    by blast
  from wst demo_walk have "st = \<lparr>Table = demo_table, Out = [''Error parsing timestamp: invalid syntax'']\<rparr>"
    by (simp add: argl)
  with m have c5: "main demo =
     Inr \<lparr>Printed = [''Error parsing timestamp: invalid syntax'',
                      ''./export.csv  file created successfully.''],
          Csv = map_option (\<lambda>recs. (''./export.csv'', recs))
                  (snd (exportCSV demo ''./export.csv'' demo_table))\<rparr>"
    by (simp add: argl o)
  from h1 c1 pth rd c2 c3 c4 h2 c5 show ?thesis by (intro conjI) simp_all
qed

section \<open>A failing export\<close>

text \<open>
  C2 says that a run whose CSV cannot be written aborts with a fatal error and reports the
  failure rather than success. \<open>exportCSV\<close> does return the error, but line 106 drops it
  and line 107 prints the success line all the same. On the sample export, with
  \<open>os.Create\<close> failing no file exists and success is reported; with the third write
  failing the file holds the header and one row and success is reported.
\<close>

theorem export_error_dropped:
  "exportCSV demo_readonly ''./export.csv'' demo_table = (Some ''permission denied'', None) \<and>
   main demo_readonly =
     Inr \<lparr>Printed = [''Error parsing timestamp: invalid syntax'',
                      ''./export.csv  file created successfully.''],
          Csv = None\<rparr> \<and>
   fst (exportCSV demo_full ''./export.csv'' demo_table) = Some ''no space left on device'' \<and>
   main demo_full =
     Inr \<lparr>Printed = [''Error parsing timestamp: invalid syntax'',
                      ''./export.csv  file created successfully.''],
          Csv = Some (''./export.csv'',
                  [header,
                   [''Alice'', '''', ''false'', ''false'', ''2023-11-14'', ''1'', ''2'', ''2'', ''1'', ''1'', ''general'']])\<rparr>"
proof -
  have "exportCSV demo_readonly ''./export.csv'' demo_table = (Some ''permission denied'', None)"
    by (simp add: exportCSV_def demo_readonly_def demo_def)
  moreover have "fst (exportCSV demo_full ''./export.csv'' demo_table) = Some ''no space left on device''"
    by (simp add: exportCSV_def demo_full_def demo_def demo_table_def rows_def)
  ultimately show ?thesis
    using demo_readonly_main demo_full_main by (simp add: demo_csv_def)
qed

section \<open>Counting posts\<close>

text \<open>
  C3, as stated: for every user \<open>U\<close> the post counts of \<open>U\<close> summed over all buckets of
  the final table equal the number of input messages written by \<open>U\<close> with a non-empty,
  parseable timestamp. The sample run refutes it: Bob (\<open>U2\<close>) wrote two such messages,
  \<open>late\<close> and \<open>news\<close>, but \<open>late\<close> follows the unparseable \<open>broken\<close> in its file
  and is never reached, so the table counts one post.
\<close>

theorem posts_counting_counterexample:
  "walk_loop demo ''export'' (Some demo_users) \<lparr>Table = [], Out = []\<rparr> (Walk demo ''export'') =
     Inr \<lparr>Table = demo_table, Out = [''Error parsing timestamp: invalid syntax'']\<rparr> \<and>
   demo_users ''U2'' = Some (reduceUser bob) \<and>
   posts_of_user ''U2'' demo_table = 1 \<and>
   input_posts demo ''export'' ''U2'' (Walk demo ''export'') = 2"
proof -
  have "posts_of_user ''U2'' demo_table = 1"
    by (simp add: posts_of_user_def posts_of_day_def posts_in_def demo_table_def)
  moreover have "input_posts demo ''export'' ''U2'' (Walk demo ''export'') = 2"
  proof -
    have "input_posts demo ''export'' ''U2'' (Walk demo ''export'') =
          sum_list (map (authored demo ''U2'')
            (map (entry_messages demo ''export'') (Walk demo ''export'')))"
      unfolding input_posts_def by (simp only: map_map comp_def)
    also have "\<dots> = 2"
      unfolding demo_entry_messages by (simp add: authored_def parseable_def demo_defs)
    finally show ?thesis .
  qed
  moreover have "demo_users ''U2'' = Some (reduceUser bob)"
    by (simp add: demo_users_def)
  ultimately show ?thesis
    using demo_walk by simp
qed

text \<open>
  C3, amended: when the walk ends without error, the post counts of a user \<open>U\<close> of the
  lookup table, summed over all buckets of the final table, equal the number of messages
  written by \<open>U\<close> with a non-empty, parseable timestamp that are not preceded in their
  file by a message with a non-empty, unparseable timestamp; for an identifier that is not
  in the lookup table the sum is zero.
\<close>

theorem posts_counting:
  assumes "walk_loop h basePath (Some us) \<lparr>Table = [], Out = []\<rparr> entries = Inr st"
  shows "posts_of_user U (Table st) = (if U \<in> dom us then reached_posts h basePath U entries else 0)"
proof -
  have "known_table us (Table \<lparr>Table = [], Out = []\<rparr>)"
    by (simp add: known_table_def)
  from walk_loop_posts [OF assms this, of U] show ?thesis
    by (simp add: reached_posts_def posts_of_user_def)
qed

theorem posts_counting_witness:
  "walk_loop demo ''export'' (Some demo_users) \<lparr>Table = [], Out = []\<rparr> (Walk demo ''export'') =
     Inr \<lparr>Table = demo_table, Out = [''Error parsing timestamp: invalid syntax'']\<rparr> \<and>
   posts_of_user ''U2'' demo_table = reached_posts demo ''export'' ''U2'' (Walk demo ''export'') \<and>
   reached_posts demo ''export'' ''U2'' (Walk demo ''export'') = 1"
proof -
  have "reached_posts demo ''export'' ''U2'' (Walk demo ''export'') =
        sum_list (map (\<lambda>ms. authored demo ''U2'' (reached demo ms))
          (map (entry_messages demo ''export'') (Walk demo ''export'')))"
    unfolding reached_posts_def by (simp only: map_map comp_def)
  also have "\<dots> = 1"
    unfolding demo_entry_messages
    by (simp add: reached_def authored_def parseable_def unparseable_def demo_defs)
  finally have "reached_posts demo ''export'' ''U2'' (Walk demo ''export'') = 1" .
  moreover have "''U2'' \<in> dom demo_users"
    by (simp add: demo_users_def)
  ultimately show ?thesis
    using posts_counting [OF demo_walk, of "''U2''"] demo_walk by simp
qed

section \<open>The layout of the CSV\<close>

text \<open>
  C4: the header is the fixed row of eleven names, misspellings included. The records of
  the exported file are an initial part of the header followed by the rows of the table,
  and all of them when no write failed, so a file that holds any record begins with the
  header. A row is the list, in this order, of the display name, the name, the restricted
  and deleted flags as \<open>true\<close> or \<open>false\<close>, the day, the post count, the given-reaction
  count, the size of the given-to set, the received-reaction count, the size of the
  received-from set and the channel name of one record of the table, and every record of
  the table has its row.
\<close>

theorem csv_layout:
  "header =
     [''display_name'', ''name'', ''is_restricted'', ''deleted'', ''day'', ''posts'',
      ''received_reations'', ''received_reaction_users'', ''given_reactions'',
      ''given_reation_users'', ''channel_name''] \<and>
   (exportCSV h fileName t = (err, Some recs) \<longrightarrow>
      recs = take (length recs) (header # rows t) \<and>
      (recs \<noteq> [] \<longrightarrow> hd recs = header) \<and>
      (err = None \<longrightarrow> recs = header # rows t)) \<and>
   (r \<in> set (rows t) \<longleftrightarrow>
      (\<exists>channelName ud day us uid s.
          (channelName, ud) \<in> set t \<and> (day, us) \<in> set ud \<and> (uid, s) \<in> set us \<and>
          r = [DisplayName s, Stats.Name s,
               if IsRestricted s then ''true'' else ''false'',
               if Deleted s then ''true'' else ''false'',
               day, Itoa (Posts s),
               Itoa (Stats.GivenReactions s), Itoa (int (card (GivenReactionUser s))),
               Itoa (ReceivedReactions s), Itoa (int (card (ReceivedReactionUsers s))),
               channelName]))"
proof (intro conjI impI)
  show "header =
     [''display_name'', ''name'', ''is_restricted'', ''deleted'', ''day'', ''posts'',
      ''received_reations'', ''received_reaction_users'', ''given_reactions'',
      ''given_reation_users'', ''channel_name'']"
    by (simp add: header_def)
next
  assume e: "exportCSV h fileName t = (err, Some recs)"
  from exportCSV_prefix [OF e] show p: "recs = take (length recs) (header # rows t)" by simp
  assume "recs \<noteq> []"
  then have "0 < length recs" by simp
  with p show "hd recs = header" by (cases recs) auto
next
  assume e: "exportCSV h fileName t = (err, Some recs)" and "err = None"
  with exportCSV_prefix [OF e] show "recs = header # rows t" by simp
next
  show "r \<in> set (rows t) \<longleftrightarrow>
      (\<exists>channelName ud day us uid s.
          (channelName, ud) \<in> set t \<and> (day, us) \<in> set ud \<and> (uid, s) \<in> set us \<and>
          r = [DisplayName s, Stats.Name s,
               if IsRestricted s then ''true'' else ''false'',
               if Deleted s then ''true'' else ''false'',
               day, Itoa (Posts s),
               Itoa (Stats.GivenReactions s), Itoa (int (card (GivenReactionUser s))),
               Itoa (ReceivedReactions s), Itoa (int (card (ReceivedReactionUsers s))),
               channelName])"
    unfolding rows_iff row_def FormatBool_def ..
qed

text \<open>The sample table exports to the header and its three rows.\<close>

theorem csv_layout_witness:
  "exportCSV demo ''./export.csv'' demo_table = (None, Some demo_csv) \<and>
   demo_csv = header # rows demo_table \<and> demo_csv \<noteq> [] \<and> hd demo_csv = header"
proof -
  have "demo_csv \<noteq> []" by (simp add: demo_csv_def)
  with csv_layout [of demo "''./export.csv''" demo_table None demo_csv] demo_export
  show ?thesis by simp
qed
section \<open>Reaction accounting\<close>




section \<open>The name field\<close>

text \<open>
  C6: every entry of the lookup table that \<open>loadUsers\<close> returns is stored under its own
  identifier and has the empty name, whatever name the decoded user object had (the other
  fields of an entry are given by C8). Therefore every Stats record of the table that the
  walk builds with this lookup table has the empty name, and in every run that leaves a
  CSV file the second field of every record after the header is the empty string.
\<close>

theorem name_not_retained:
  "(loadUsers h usersFile = Inr us \<and> us k = Some u \<longrightarrow> User.Name u = [] \<and> ID u = k) \<and>
   (loadUsers h usersFile = Inr us \<and>
    walk_loop h basePath (Some us) \<lparr>Table = [], Out = []\<rparr> entries = Inr st \<and>
    stats_at (Table st) c d uid = Some s \<longrightarrow> Stats.Name s = []) \<and>
   (main h = Inr out \<and> Csv out = Some (fileName, recs) \<longrightarrow>
      (\<forall>r \<in> set (drop 1 recs). r ! 1 = []))"
proof -
  have p1: "loadUsers h usersFile = Inr us \<and> us k = Some u \<longrightarrow> User.Name u = [] \<and> ID u = k"
    using loadUsers_unnamed by blast
  have p2: "loadUsers h usersFile = Inr us \<and>
    walk_loop h basePath (Some us) \<lparr>Table = [], Out = []\<rparr> entries = Inr st \<and>
    stats_at (Table st) c d uid = Some s \<longrightarrow> Stats.Name s = []"
  proof
    assume a: "loadUsers h usersFile = Inr us \<and>
      walk_loop h basePath (Some us) \<lparr>Table = [], Out = []\<rparr> entries = Inr st \<and>
      stats_at (Table st) c d uid = Some s"
    then have U: "\<forall>k u. us k = Some u \<longrightarrow> User.Name u = []"
      using loadUsers_unnamed by blast
    have "unnamed_table (Table \<lparr>Table = [], Out = []\<rparr>)" by (simp add: unnamed_table_def)
    with a have "unnamed_table (Table st)" using unnamed_walk_loop [OF U] by blast
    with a show "Stats.Name s = []" using unnamed_stats_at by blast
  qed
  have p3: "main h = Inr out \<and> Csv out = Some (fileName, recs) \<longrightarrow>
      (\<forall>r \<in> set (drop 1 recs). r ! 1 = [])"
  proof
    assume a: "main h = Inr out \<and> Csv out = Some (fileName, recs)"
    then obtain us st where
      l: "loadUsers h (Args h ! 1 @ ''/users.json'') = Inr us" and
      w: "walk_loop h (Args h ! 1) (Some us) \<lparr>Table = [], Out = []\<rparr> (Walk h (Args h ! 1)) = Inr st" and
      e: "snd (exportCSV h (outputName (Args h ! 1)) (Table st)) = Some recs"
      by (auto simp: main_def Let_def split: if_splits sum.splits)
    from l have U: "\<forall>k u. us k = Some u \<longrightarrow> User.Name u = []"
      using loadUsers_unnamed by blast
    have "unnamed_table (Table \<lparr>Table = [], Out = []\<rparr>)" by (simp add: unnamed_table_def)
    with w have T: "unnamed_table (Table st)" using unnamed_walk_loop [OF U] by blast
    from e have "exportCSV h (outputName (Args h ! 1)) (Table st) =
        (fst (exportCSV h (outputName (Args h ! 1)) (Table st)), Some recs)"
      by (simp add: prod_eq_iff)
    then have "recs = take (length recs) (header # rows (Table st))"
      by (simp add: exportCSV_prefix)
    then have "drop 1 recs = take (length recs - 1) (rows (Table st))"
      by (metis drop_take drop_Suc_Cons drop0 One_nat_def)
    then have "set (drop 1 recs) \<subseteq> set (rows (Table st))"
      by (simp add: set_take_subset)
    with T show "\<forall>r \<in> set (drop 1 recs). r ! 1 = []"
      using unnamed_rows by blast
  qed
  from p1 p2 p3 show ?thesis by (intro conjI)
qed

text \<open>
  In the sample Alice's user object has the name \<open>alice\<close>; her entry of the lookup table,
  her record of channel \<open>general\<close> and all three rows of the CSV have the empty name.
\<close>

theorem name_not_retained_witness:
  "User.Name alice = ''alice'' \<and>
   loadUsers demo ''export/users.json'' = Inr demo_users \<and>
   demo_users ''U1'' = Some (reduceUser alice) \<and> User.Name (reduceUser alice) = [] \<and>
   walk_loop demo ''export'' (Some demo_users) \<lparr>Table = [], Out = []\<rparr> (Walk demo ''export'') =
     Inr \<lparr>Table = demo_table, Out = [''Error parsing timestamp: invalid syntax'']\<rparr> \<and>
   (\<exists>s. stats_at demo_table ''general'' ''2023-11-14'' ''U1'' = Some s \<and> Stats.Name s = []) \<and>
   Csv (projr (main demo)) = Some (''./export.csv'', demo_csv) \<and>
   map (\<lambda>r. r ! 1) (drop 1 demo_csv) = ['''', '''', '''']"
proof -
  have n: "User.Name alice = ''alice''" by (simp add: alice_def)
  have u: "demo_users ''U1'' = Some (reduceUser alice)" by (simp add: demo_users_def)
  obtain s where s: "stats_at demo_table ''general'' ''2023-11-14'' ''U1'' = Some s"
    by (simp add: stats_at_def day_stats_def demo_table_def)
  have m: "main demo = Inr (projr (main demo))"
    and c: "Csv (projr (main demo)) = Some (''./export.csv'', demo_csv)"
    by (simp_all add: demo_main)
  note T = name_not_retained [where h = demo and usersFile = "''export/users.json''"
      and us = demo_users and basePath = "''export''" and entries = "Walk demo ''export''"
      and st = "\<lparr>Table = demo_table, Out = [''Error parsing timestamp: invalid syntax'']\<rparr>"
      and out = "projr (main demo)" and fileName = "''./export.csv''" and recs = demo_csv]
  from T [where k = "''U1''" and u = "reduceUser alice"] demo_loadUsers u
  have a: "User.Name (reduceUser alice) = []" by simp
  from T [where c = "''general''" and d = "''2023-11-14''" and uid = "''U1''" and s = s]
    demo_loadUsers demo_walk s
  have b: "Stats.Name s = []" by simp
  from T m c have "\<forall>r \<in> set (drop 1 demo_csv). r ! 1 = []" by simp
  then have d: "map (\<lambda>r. r ! 1) (drop 1 demo_csv) = ['''', '''', '''']"
    by (simp add: demo_csv_def)
  from s b have "\<exists>s. stats_at demo_table ''general'' ''2023-11-14'' ''U1'' = Some s \<and> Stats.Name s = []"
    by blast
  with n demo_loadUsers u a demo_walk c d show ?thesis by (intro conjI)
qed
section \<open>The walk and the files at the root\<close>

text \<open>
  C7 says that a regular \<open>.json\<close> file is skipped when the base name of its directory
  equals the base name of the root path, and that in particular a tree whose only JSON file
  sits directly at the root contributes no channel file; the comment of lines 84-85 states
  the same purpose, to skip the JSON files that are not in a channel folder. The test of
  line 83 compares two base names, and for the root path \<open>export/.\<close> they differ for a
  file directly at the root: \<open>filepath.Walk\<close> reports the file as \<open>export/users.json\<close>,
  whose directory has the base name \<open>export\<close>, while the base name of the root path is
  \<open>.\<close>. So \<open>users.json\<close> is read and decoded as a message log and aggregated as
  channel \<open>export\<close>, which enters the table; the run ends with the success line. With
  the root path \<open>export\<close> the same file of the same tree is skipped and the table stays
  empty.
\<close>

theorem root_file_read_as_channel:
  "Walk dotted_root ''export/.'' =
     [WalkEntry ''export/.'' True None, WalkEntry ''export/users.json'' False None] \<and>
   Ext dotted_root ''export/users.json'' = ''.json'' \<and>
   Dir dotted_root ''export/users.json'' = ''export'' \<and>
   Base dotted_root (Dir dotted_root ''export/users.json'') = ''export'' \<and>
   Base dotted_root ''export/.'' = ''.'' \<and>
   loadUsers dotted_root (''export/.'' @ ''/users.json'') = Inr demo_users \<and>
   readMessagesFromJSONFile dotted_root ''export/users.json'' = Inr [zero_message, zero_message] \<and>
   walkFn dotted_root ''export/.'' (Some demo_users) \<lparr>Table = [], Out = []\<rparr>
     (WalkEntry ''export/users.json'' False None) =
     Inr \<lparr>Table = fst (updateStats dotted_root [] ''export'' [zero_message, zero_message]
                          (Some demo_users)),
          Out = []\<rparr> \<and>
   walk_loop dotted_root ''export/.'' (Some demo_users) \<lparr>Table = [], Out = []\<rparr>
     (Walk dotted_root ''export/.'') = Inr \<lparr>Table = [(''export'', [])], Out = []\<rparr> \<and>
   main dotted_root =
     Inr \<lparr>Printed = [''./export.csv  file created successfully.''],
          Csv = Some (''./export.csv'', [header])\<rparr> \<and>
   Walk plain_root ''export'' =
     [WalkEntry ''export'' True None, WalkEntry ''export/users.json'' False None] \<and>
   Base plain_root (Dir plain_root ''export/users.json'') = Base plain_root ''export'' \<and>
   walk_loop plain_root ''export'' (Some demo_users) \<lparr>Table = [], Out = []\<rparr>
     (Walk plain_root ''export'') = Inr \<lparr>Table = [], Out = []\<rparr>"
proof -
  note gopath = filepath_Clean_def filepath_Base_def filepath_Dir_def filepath_Ext_def
    filepath_Join_def clean_step_def
  have w: "Walk dotted_root ''export/.'' =
     [WalkEntry ''export/.'' True None, WalkEntry ''export/users.json'' False None]"
    by (simp add: dotted_root_def gopath)
  have p: "Ext dotted_root ''export/users.json'' = ''.json''"
    "Dir dotted_root ''export/users.json'' = ''export''"
    "Base dotted_root ''export'' = ''export''"
    "Base dotted_root ''export/.'' = ''.''"
    by (simp_all add: dotted_root_def gopath)
  have u: "loadUsers dotted_root (''export/.'' @ ''/users.json'') = Inr demo_users"
    by (simp add: loadUsers_def addUser_def dotted_root_def gopath demo_users_def alice_def bob_def)
  have r: "readMessagesFromJSONFile dotted_root ''export/users.json'' =
      Inr [zero_message, zero_message]"
    by (simp add: readMessagesFromJSONFile_def dotted_root_def gopath)
  have s: "updateStats dotted_root [] ''export'' [zero_message, zero_message] (Some demo_users) =
      ([(''export'', [])], [])"
    by (simp add: updateStats_def message_body_def zero_message_def)
  have f: "walkFn dotted_root ''export/.'' (Some demo_users) \<lparr>Table = [], Out = []\<rparr>
     (WalkEntry ''export/users.json'' False None) =
     Inr \<lparr>Table = fst (updateStats dotted_root [] ''export'' [zero_message, zero_message]
                          (Some demo_users)),
          Out = []\<rparr>"
    by (simp add: walkFn_def p r s)
  have l: "walk_loop dotted_root ''export/.'' (Some demo_users) \<lparr>Table = [], Out = []\<rparr>
     (Walk dotted_root ''export/.'') = Inr \<lparr>Table = [(''export'', [])], Out = []\<rparr>"
  proof -
    have "walkFn dotted_root ''export/.'' (Some demo_users) \<lparr>Table = [], Out = []\<rparr>
        (WalkEntry ''export/.'' True None) = Inr \<lparr>Table = [], Out = []\<rparr>"
      by (simp add: walkFn_def)
    then show ?thesis unfolding w by (simp add: f s)
  qed
  have a: "Args dotted_root = [''converter'', ''export/.'']" by (simp add: dotted_root_def)
  have e: "exportCSV dotted_root ''./export.csv'' [(''export'', [])] = (None, Some [header])"
    by (simp add: exportCSV_def dotted_root_def rows_def)
  have o: "outputName ''export/.'' = ''./export.csv''" by (simp add: outputName_def)
  have m: "main dotted_root =
     Inr \<lparr>Printed = [''./export.csv  file created successfully.''],
          Csv = Some (''./export.csv'', [header])\<rparr>"
    using u l by (simp add: main_def a o e)
  have w': "Walk plain_root ''export'' =
     [WalkEntry ''export'' True None, WalkEntry ''export/users.json'' False None]"
    by (simp add: plain_root_def dotted_root_def gopath)
  have p': "Ext plain_root ''export/users.json'' = ''.json''"
    "Base plain_root (Dir plain_root ''export/users.json'') = Base plain_root ''export''"
    by (simp_all add: plain_root_def dotted_root_def gopath)
  have l': "walk_loop plain_root ''export'' (Some demo_users) \<lparr>Table = [], Out = []\<rparr>
     (Walk plain_root ''export'') = Inr \<lparr>Table = [], Out = []\<rparr>"
    unfolding w' by (simp add: walkFn_def p')
  from w p u r f l m w' p' l' show ?thesis by (intro conjI) simp_all
qed

section \<open>The user lookup table\<close>

text \<open>
  C8: when the user file reads and decodes to \<open>N\<close> user objects with pairwise distinct
  identifiers, \<open>loadUsers\<close> returns a lookup table with exactly \<open>N\<close> entries, whose
  keys are the identifiers, and the entry of each user carries the identifier, the profile
  (display name), the restricted flag and the deleted flag of that user and an empty name.
\<close>

theorem loadUsers_table:
  assumes "ReadFile h usersFile = Inr data" and "UnmarshalUsers h data = Inr users"
    and "distinct (map ID users)"
  shows "\<exists>userMap. loadUsers h usersFile = Inr userMap \<and>
           card (dom userMap) = length users \<and>
           dom userMap = ID ` set users \<and>
           (\<forall>u \<in> set users. userMap (ID u) =
              Some \<lparr>ID = ID u, User.Name = [], Profile = Profile u,
                    User.IsRestricted = User.IsRestricted u, User.Deleted = User.Deleted u\<rparr>)"
proof -
  define userMap where "userMap = foldl addUser Map.empty users"
  have l: "loadUsers h usersFile = Inr userMap"
    using assms(1,2) by (simp add: loadUsers_def userMap_def)
  have d: "dom userMap = ID ` set users"
    by (simp add: userMap_def users_fold_dom)
  have "card (ID ` set users) = length users"
    using assms(3) distinct_card [of "map ID users"] by simp
  then have c: "card (dom userMap) = length users" by (simp add: d)
  have "\<forall>u \<in> set users. userMap (ID u) = Some (reduceUser u)"
    using assms(3) by (simp add: userMap_def users_fold_get)
  then show ?thesis using l c d by (simp add: reduceUser_def)
qed

text \<open>The sample: two users with distinct identifiers give a table of two entries.\<close>

theorem loadUsers_table_witness:
  "ReadFile demo ''export/users.json'' = Inr ''<users>'' \<and>
   UnmarshalUsers demo ''<users>'' = Inr [alice, bob] \<and> distinct (map ID [alice, bob]) \<and>
   (\<exists>userMap. loadUsers demo ''export/users.json'' = Inr userMap \<and> card (dom userMap) = 2 \<and>
      userMap ''U2'' = Some \<lparr>ID = ''U2'', User.Name = [], Profile = \<lparr>Profile.DisplayName = ''Bob, Jr.''\<rparr>,
                               User.IsRestricted = True, User.Deleted = False\<rparr>)"
proof -
  have a: "ReadFile demo ''export/users.json'' = Inr ''<users>''" by (simp add: demo_def)
  have b: "UnmarshalUsers demo ''<users>'' = Inr [alice, bob]" by (simp add: demo_def)
  have c: "distinct (map ID [alice, bob])" by (simp add: alice_def bob_def)
  from loadUsers_table [OF a b c] obtain userMap where
    u: "loadUsers demo ''export/users.json'' = Inr userMap" "card (dom userMap) = length [alice, bob]"
      "\<forall>u \<in> set [alice, bob]. userMap (ID u) =
          Some \<lparr>ID = ID u, User.Name = [], Profile = Profile u,
                User.IsRestricted = User.IsRestricted u, User.Deleted = User.Deleted u\<rparr>"
    by blast
  from u(3) have "userMap ''U2'' = Some \<lparr>ID = ''U2'', User.Name = [], Profile = \<lparr>Profile.DisplayName = ''Bob, Jr.''\<rparr>,
                               User.IsRestricted = True, User.Deleted = False\<rparr>"
    by (simp add: alice_def bob_def)
  with u(1,2) a b c show ?thesis by simp
qed


section \<open>Stats records across calls of updateStats\<close>



section \<open>Reactors outside the lookup table\<close>

text \<open>
  C10: in a bucket whose records all belong to users of the lookup table, the loop body
  for an occurrence of a reactor that is absent from the lookup table leaves the bucket
  exactly as it was: no record is created, and the author's given-reaction count and
  given-to set are untouched. Hence \<open>updateStats\<close> gives the same table and output
  whether or not such occurrences are removed from the messages beforehand. Every bucket
  of a run is of that kind: the empty table is, and \<open>updateStats\<close> keeps a table so.
\<close>

theorem unknown_reactor_ignored:
  "(known_bucket users statsByUser \<and> users reactingUser = None \<longrightarrow>
      react users author statsByUser reactingUser = statsByUser) \<and>
   (known_table users t \<longrightarrow>
      updateStats h t c (map (known_reactions users) messages) (Some users) =
        updateStats h t c messages (Some users) \<and>
      known_table users (fst (updateStats h t c messages (Some users)))) \<and>
   known_table users []"
  by (simp add: react_unknown_reactor updateStats_known_reactions updateStats_posts)
    (simp add: known_table_def)

text \<open>
  The reaction of \<open>U9\<close> to \<open>hi\<close> in the sample: the bucket with Alice's record stays
  as it is, and aggregating \<open>hi\<close> with or without that occurrence is the same.
\<close>

theorem unknown_reactor_ignored_witness:
  "known_bucket demo_users [(''U1'', newStats (reduceUser alice))] \<and> demo_users ''U9'' = None \<and>
   react demo_users ''U1'' [(''U1'', newStats (reduceUser alice))] ''U9'' =
     [(''U1'', newStats (reduceUser alice))] \<and>
   known_table demo_users [] \<and>
   Message.GivenReactions (known_reactions demo_users hi) =
     [\<lparr>Reaction.Name = ''thumbsup'', Users = [''U1'', ''U2''], Count = 3\<rparr>] \<and>
   updateStats demo [] ''general'' [known_reactions demo_users hi] (Some demo_users) =
     updateStats demo [] ''general'' [hi] (Some demo_users)"
proof -
  have k: "known_bucket demo_users [(''U1'', newStats (reduceUser alice))] \<and> demo_users ''U9'' = None"
    by (simp add: known_bucket_def demo_users_def)
  have e: "known_table demo_users []" by (simp add: known_table_def)
  have g: "Message.GivenReactions (known_reactions demo_users hi) =
     [\<lparr>Reaction.Name = ''thumbsup'', Users = [''U1'', ''U2''], Count = 3\<rparr>]"
    by (simp add: known_reactions_def present_def hi_def demo_users_def)
  note T = unknown_reactor_ignored [where users = demo_users and h = demo]
  from T [where statsByUser = "[(''U1'', newStats (reduceUser alice))]" and reactingUser = "''U9''"
      and author = "''U1''"] k
  have a: "react demo_users ''U1'' [(''U1'', newStats (reduceUser alice))] ''U9'' =
     [(''U1'', newStats (reduceUser alice))]" by simp
  from T [where t = "[]" and c = "''general''" and messages = "[hi]"] e
  have b: "updateStats demo [] ''general'' [known_reactions demo_users hi] (Some demo_users) =
     updateStats demo [] ''general'' [hi] (Some demo_users)" by simp
  from k e g a b show ?thesis by (intro conjI) simp_all
qed

end
